theory Spec2Isabelle
  imports Main
begin

section \<open>Data model\<close>

text \<open>
  The store is the relational database behind the Prisma client. Its identifiers are
  opaque strings generated by the store; only their equality and their freshness matter,
  so the model draws them from a counter kept in the store.

  JavaScript numbers are kept abstract: every function below is polymorphic in a type
  \<open>'n\<close> that has a zero, an addition and a multiplication, and no law of arithmetic is
  assumed of them. What is proved therefore holds for the operations of IEEE doubles as
  well as for exact arithmetic.
\<close>

type_synonym ident = nat

datatype OrderStatus = PENDING | CONFIRMED | PROCESSING | SHIPPED | DELIVERED | CANCELLED

record Customer =
  customer_id :: ident
  firstName :: string
  lastName :: string
  customer_email :: string
  phone :: "string option"
  address :: "string option"

text \<open>\<open>orderItemSchema\<close>: what a client sends for one item.\<close>

record 'n OrderItemInput =
  productName :: string
  quantity :: 'n
  unitPrice :: 'n

text \<open>The service's \<open>{...item, totalPrice: item.quantity * item.unitPrice}\<close>.\<close>

record 'n OrderItemCreate = "'n OrderItemInput" +
  totalPrice :: 'n

text \<open>A row of the item table: the store adds the identifier and the foreign key.\<close>

record 'n OrderItem = "'n OrderItemCreate" +
  item_id :: ident
  orderId :: ident

record 'n Order =
  order_id :: ident
  orderNumber :: string
  status :: OrderStatus
  totalAmount :: 'n
  order_notes :: "string option"
  customerId :: ident

text \<open>\<open>createOrderSchema\<close> and \<open>updateOrderSchema\<close> after parsing.\<close>

record 'n CreateOrderInput =
  in_customerId :: ident
  in_status :: "OrderStatus option"
  in_notes :: "string option"
  in_items :: "'n OrderItemInput list"

record 'n UpdateOrderInput =
  upd_status :: "OrderStatus option"
  upd_notes :: "string option"
  upd_items :: "'n OrderItemInput list option"

text \<open>An order as returned with \<open>include: { customer: true, items: true }\<close>.\<close>

record 'n OrderWithRelations =
  order :: "'n Order"
  customer :: "Customer option"
  items :: "'n OrderItem list"

record 'n database =
  customers :: "Customer list"
  orders :: "'n Order list"
  orderItems :: "'n OrderItem list"
  nextId :: nat

text \<open>
  What a call can throw: \<open>new Error(message)\<close>, or the client's
  \<open>PrismaClientKnownRequestError\<close> with its code (\<open>P2002\<close>: unique constraint,
  \<open>P2025\<close>: record not found).
\<close>

datatype exn = Error string | PrismaClientKnownRequestError string

text \<open>
  \<open>(error as Error).message\<close>. The text of the client's own messages is not part of
  the repository; the model carries the error code in its place.
\<close>

fun exn_message :: "exn \<Rightarrow> string" where
  "exn_message (Error m) = m"
| "exn_message (PrismaClientKnownRequestError c) = c"

section \<open>The store operations used by the order service\<close>

text \<open>The items of an order: the rows of the item table that carry its identifier.\<close>

definition items_of :: "'n database \<Rightarrow> ident \<Rightarrow> 'n OrderItem list" where
  "items_of db oid = filter (\<lambda>i. orderId i = oid) (orderItems db)"

definition order_include :: "'n database \<Rightarrow> 'n Order \<Rightarrow> 'n OrderWithRelations" where
  "order_include db ord =
     \<lparr>order = ord,
      customer = find (\<lambda>c. customer_id c = customerId ord) (customers db),
      items = items_of db (order_id ord)\<rparr>"

text \<open>The nested \<open>items: { create: [...] }\<close>: one row per element, in order, with fresh identifiers.\<close>

definition create_items :: "ident \<Rightarrow> nat \<Rightarrow> 'n OrderItemCreate list \<Rightarrow> 'n OrderItem list" where
  "create_items oid start cs =
     map (\<lambda>(k, c). \<lparr>productName = productName c, quantity = quantity c,
                     unitPrice = unitPrice c, totalPrice = totalPrice c,
                     item_id = k, orderId = oid\<rparr>)
       (enumerate start cs)"

text \<open>
  \<open>prisma.order.create\<close> with nested item creation and the relations included.

  Modelled from the spec: \<open>prisma/schema.prisma\<close> is missing, and with it whether
  \<open>Order.orderNumber\<close> carries a uniqueness constraint (the spec calls the order number
  unique). The flag \<open>uniq\<close> stands for that constraint: when it is set, a create whose
  order number is already stored is refused with \<open>P2002\<close> and stores nothing.
\<close>

definition prisma_order_create ::
  "bool \<Rightarrow> 'n database \<Rightarrow> string \<Rightarrow> OrderStatus \<Rightarrow> 'n \<Rightarrow> string option \<Rightarrow> ident \<Rightarrow>
     'n OrderItemCreate list \<Rightarrow> 'n database \<times> (exn + 'n OrderWithRelations)" where
  "prisma_order_create uniq db num st amount nts cust cs =
     (if uniq \<and> num \<in> set (map orderNumber (orders db))
      then (db, Inl (PrismaClientKnownRequestError ''P2002''))
      else
        let oid = nextId db;
            ord = \<lparr>order_id = oid, orderNumber = num, status = st, totalAmount = amount,
                   order_notes = nts, customerId = cust\<rparr>;
            db' = db\<lparr>orders := orders db @ [ord],
                     orderItems := orderItems db @ create_items oid (Suc oid) cs,
                     nextId := Suc oid + length cs\<rparr>
        in (db', Inr (order_include db' ord)))"

text \<open>
  \<open>prisma.order.update\<close>: \<open>P2025\<close> when no order has the identifier. Fields that are
  \<open>undefined\<close> in \<open>data\<close> are left as they are. With \<open>items: { deleteMany: {}, create }\<close>
  every item of the order is deleted and the new ones are created, in the one call.
\<close>

definition merge_update ::
  "'n Order \<Rightarrow> OrderStatus option \<Rightarrow> string option \<Rightarrow> 'n option \<Rightarrow> 'n Order" where
  "merge_update old st nts amount =
     old\<lparr>status := (case st of None \<Rightarrow> status old | Some s \<Rightarrow> s),
         order_notes := (case nts of None \<Rightarrow> order_notes old | Some n \<Rightarrow> Some n),
         totalAmount := (case amount of None \<Rightarrow> totalAmount old | Some t \<Rightarrow> t)\<rparr>"

definition prisma_order_update ::
  "'n database \<Rightarrow> ident \<Rightarrow> OrderStatus option \<Rightarrow> string option \<Rightarrow> 'n option \<Rightarrow>
     'n OrderItemCreate list option \<Rightarrow> 'n database \<times> (exn + 'n OrderWithRelations)" where
  "prisma_order_update db oid st nts amount repl =
     (case find (\<lambda>x. order_id x = oid) (orders db) of
        None \<Rightarrow> (db, Inl (PrismaClientKnownRequestError ''P2025''))
      | Some old \<Rightarrow>
          let ord = merge_update old st nts amount;
              db' = (case repl of
                       None \<Rightarrow> db\<lparr>orders := map (\<lambda>x. if order_id x = oid then ord else x) (orders db)\<rparr>
                     | Some cs \<Rightarrow>
                         db\<lparr>orders := map (\<lambda>x. if order_id x = oid then ord else x) (orders db),
                            orderItems := filter (\<lambda>i. orderId i \<noteq> oid) (orderItems db)
                                          @ create_items oid (nextId db) cs,
                            nextId := nextId db + length cs\<rparr>)
          in (db', Inr (order_include db' ord)))"

text \<open>
  \<open>prisma.order.delete\<close>.

  Modelled from the spec: the missing schema decides what happens to the items of a
  deleted order; the spec's glossary has a delete remove the dependent records, so the
  items go with their order.
\<close>

definition prisma_order_delete :: "'n database \<Rightarrow> ident \<Rightarrow> 'n database \<times> (exn + unit)" where
  "prisma_order_delete db oid =
     (case find (\<lambda>x. order_id x = oid) (orders db) of
        None \<Rightarrow> (db, Inl (PrismaClientKnownRequestError ''P2025''))
      | Some _ \<Rightarrow>
          (db\<lparr>orders := filter (\<lambda>x. order_id x \<noteq> oid) (orders db),
              orderItems := filter (\<lambda>i. orderId i \<noteq> oid) (orderItems db)\<rparr>, Inr ()))"

section \<open>JavaScript string helpers\<close>

text \<open>\<open>String(n)\<close> for a non-negative integer: its decimal digits.\<close>

definition digit_char :: "nat \<Rightarrow> char" where
  "digit_char d = ''0123456789'' ! d"

fun String_nat :: "nat \<Rightarrow> string" where
  "String_nat n = (if n < 10 then [digit_char n] else String_nat (n div 10) @ [digit_char (n mod 10)])"

declare String_nat.simps [simp del]

text \<open>\<open>s.padStart(w, c)\<close> with a one-character filler: pads on the left up to width \<open>w\<close>, never cuts.\<close>

definition padStart :: "nat \<Rightarrow> char \<Rightarrow> string \<Rightarrow> string" where
  "padStart w c s = replicate (w - length s) c @ s"

section \<open>OrderService\<close>

text \<open>The two \<open>reduce\<close> loops: a left fold from \<open>0\<close>.\<close>

definition items_total :: "('n::{zero,plus,times}) OrderItemInput list \<Rightarrow> 'n" where
  "items_total its = foldl (\<lambda>sum item. sum + quantity item * unitPrice item) 0 its"

definition with_totalPrice :: "('n::times) OrderItemInput \<Rightarrow> 'n OrderItemCreate" where
  "with_totalPrice item =
     \<lparr>productName = productName item, quantity = quantity item, unitPrice = unitPrice item,
      totalPrice = quantity item * unitPrice item\<rparr>"

definition generateOrderNumber :: "nat \<Rightarrow> nat \<Rightarrow> string" where
  "generateOrderNumber year orderCount =
     ''ORD-'' @ String_nat year @ ''-'' @ padStart 6 (CHR ''0'') (String_nat (orderCount + 1))"

text \<open>\<open>year\<close> is \<open>new Date().getFullYear()\<close> at the time of the call.\<close>

definition createOrder ::
  "bool \<Rightarrow> nat \<Rightarrow> ('n::{zero,plus,times}) database \<Rightarrow> 'n CreateOrderInput \<Rightarrow>
     'n database \<times> (exn + 'n OrderWithRelations)" where
  "createOrder uniq year db data =
     (case find (\<lambda>c. customer_id c = in_customerId data) (customers db) of
        None \<Rightarrow> (db, Inl (Error ''Customer not found''))
      | Some _ \<Rightarrow>
          let amount = items_total (in_items data);
              orderCount = length (orders db);
              num = generateOrderNumber year orderCount
          in prisma_order_create uniq db num
               (case in_status data of None \<Rightarrow> PENDING | Some s \<Rightarrow> s)
               amount (in_notes data) (in_customerId data)
               (map with_totalPrice (in_items data)))"

definition getOrderById :: "'n database \<Rightarrow> ident \<Rightarrow> exn + 'n OrderWithRelations" where
  "getOrderById db oid =
     (case find (\<lambda>x. order_id x = oid) (orders db) of
        None \<Rightarrow> Inl (Error ''Order not found'')
      | Some ord \<Rightarrow> Inr (order_include db ord))"

text \<open>The \<open>try\<close>/\<open>catch\<close> of \<open>updateOrder\<close> and \<open>deleteOrder\<close>: whatever is thrown becomes \<open>Order not found\<close>.\<close>

definition catch_not_found :: "'s \<times> (exn + 'a) \<Rightarrow> 's \<times> (exn + 'a)" where
  "catch_not_found r = (case r of (s, Inl _) \<Rightarrow> (s, Inl (Error ''Order not found'')) | (s, Inr v) \<Rightarrow> (s, Inr v))"

definition updateOrder ::
  "('n::{zero,plus,times}) database \<Rightarrow> ident \<Rightarrow> 'n UpdateOrderInput \<Rightarrow>
     'n database \<times> (exn + 'n OrderWithRelations)" where
  "updateOrder db oid data =
     catch_not_found
       (case upd_items data of
          Some its \<Rightarrow>
            prisma_order_update db oid (upd_status data) (upd_notes data)
              (Some (items_total its)) (Some (map with_totalPrice its))
        | None \<Rightarrow>
            prisma_order_update db oid (upd_status data) (upd_notes data) None None)"

definition deleteOrder :: "'n database \<Rightarrow> ident \<Rightarrow> 'n database \<times> (exn + unit)" where
  "deleteOrder db oid = catch_not_found (prisma_order_delete db oid)"

section \<open>Invariants of the store\<close>

text \<open>The sum of the line totals of stored items, in the order of the rows.\<close>

definition sum_totalPrice :: "('n::{zero,plus}) OrderItem list \<Rightarrow> 'n" where
  "sum_totalPrice its = foldl (\<lambda>sum i. sum + totalPrice i) 0 its"

text \<open>
  A well-formed store: every identifier in use was drawn from the counter, and every item
  row refers to a stored order (the foreign key of the item table).
\<close>

definition wf_db :: "'n database \<Rightarrow> bool" where
  "wf_db db \<longleftrightarrow>
     (\<forall>x \<in> set (orders db). order_id x < nextId db) \<and>
     (\<forall>i \<in> set (orderItems db). item_id i < nextId db \<and> (\<exists>x \<in> set (orders db). order_id x = orderId i))"

text \<open>The two invariants of the data model: order totals and line totals.\<close>

definition totals_ok :: "('n::{zero,plus,times}) database \<Rightarrow> bool" where
  "totals_ok db \<longleftrightarrow>
     (\<forall>x \<in> set (orders db). totalAmount x = sum_totalPrice (items_of db (order_id x))) \<and>
     (\<forall>i \<in> set (orderItems db). totalPrice i = quantity i * unitPrice i)"

text \<open>The order row that \<open>createOrder\<close> writes.\<close>

definition new_order :: "nat \<Rightarrow> ('n::{zero,plus,times}) database \<Rightarrow> 'n CreateOrderInput \<Rightarrow> 'n Order" where
  "new_order year db d =
     \<lparr>order_id = nextId db, orderNumber = generateOrderNumber year (length (orders db)),
      status = (case in_status d of None \<Rightarrow> PENDING | Some s \<Rightarrow> s),
      totalAmount = items_total (in_items d), order_notes = in_notes d,
      customerId = in_customerId d\<rparr>"

text \<open>The rows \<open>rows\<close> are the input items, one for one and in order, each with its line total.\<close>

definition matches_input :: "('n::times) OrderItem list \<Rightarrow> 'n OrderItemInput list \<Rightarrow> bool" where
  "matches_input rows its \<longleftrightarrow>
     map productName rows = map productName its \<and>
     map quantity rows = map quantity its \<and>
     map unitPrice rows = map unitPrice its \<and>
     map totalPrice rows = map (\<lambda>item. quantity item * unitPrice item) its"

text \<open>The primary keys of the order table and of the item table: no identifier twice.\<close>

definition keys_ok :: "'n database \<Rightarrow> bool" where
  "keys_ok db \<longleftrightarrow> distinct (map order_id (orders db)) \<and> distinct (map item_id (orderItems db))"

section \<open>The format of order numbers\<close>

text \<open>Decimal digits, and the number a string of digits denotes.\<close>

definition is_digit :: "char \<Rightarrow> bool" where
  "is_digit c \<longleftrightarrow> c \<in> set ''0123456789''"

definition digit_val :: "char \<Rightarrow> nat" where
  "digit_val c = length (takeWhile (\<lambda>x. x \<noteq> c) ''0123456789'')"

definition nat_of_digits :: "string \<Rightarrow> nat" where
  "nat_of_digits s = foldl (\<lambda>a c. 10 * a + digit_val c) 0 s"

text \<open>
  The format the specification gives for an order number, \<open>ORD-<4-digit year>-<6-digit
  sequence>\<close>: fifteen characters, of which the four after \<open>ORD-\<close> are digits denoting
  \<open>year\<close> and the six after the second dash are digits denoting \<open>n\<close>.
\<close>

definition claimed_format :: "string \<Rightarrow> nat \<Rightarrow> nat \<Rightarrow> bool" where
  "claimed_format num year n \<longleftrightarrow>
     length num = 15 \<and> take 4 num = ''ORD-'' \<and> take 1 (drop 8 num) = ''-'' \<and>
     list_all is_digit (take 4 (drop 4 num)) \<and> nat_of_digits (take 4 (drop 4 num)) = year \<and>
     list_all is_digit (drop 9 num) \<and> nat_of_digits (drop 9 num) = n"

text \<open>The order number of the order a call returned, if it returned one.\<close>

definition created_number :: "'s \<times> (exn + 'n OrderWithRelations) \<Rightarrow> string option" where
  "created_number res = (case snd res of Inl _ \<Rightarrow> None | Inr r \<Rightarrow> Some (orderNumber (order r)))"

text \<open>The last part of the template literal: \<open>String(orderCount + 1).padStart(6, '0')\<close>.\<close>

definition sequence_text :: "nat \<Rightarrow> string" where
  "sequence_text orderCount = padStart 6 (CHR ''0'') (String_nat (orderCount + 1))"

text \<open>The identifier and the order number of every stored order, in table order.\<close>

definition order_keys :: "'n database \<Rightarrow> (ident \<times> string) list" where
  "order_keys db = map (\<lambda>x. (order_id x, orderNumber x)) (orders db)"

section \<open>Responses and the authentication gate\<close>

text \<open>The identity a token carries (\<open>types/index.ts\<close>), and the part of an Express request the gate reads and writes.\<close>

record JwtPayload =
  userId :: ident
  email :: string

record Request =
  authorization :: "string option"
  user :: "JwtPayload option"

text \<open>
  The response envelope with its status code. The \<open>pagination\<close> member, which only the list
  handlers set, is left out.
\<close>

record 'a ApiResponse =
  statusCode :: nat
  success :: bool
  message :: string
  data :: "'a option"
  error :: "string option"

definition ApiResponseUtil_success :: "string \<Rightarrow> 'a option \<Rightarrow> nat \<Rightarrow> 'a ApiResponse" where
  "ApiResponseUtil_success msg d code =
     \<lparr>statusCode = code, success = True, message = msg, data = d, error = None\<rparr>"

text \<open>\<open>...(error && { error })\<close>: the detail is present only when it is a non-empty string.\<close>

definition ApiResponseUtil_error :: "string \<Rightarrow> string option \<Rightarrow> nat \<Rightarrow> 'a ApiResponse" where
  "ApiResponseUtil_error msg err code =
     \<lparr>statusCode = code, success = False, message = msg, data = None,
      error = (case err of None \<Rightarrow> None | Some e \<Rightarrow> if e = [] then None else Some e)\<rparr>"

definition notFound :: "string \<Rightarrow> 'a ApiResponse" where
  "notFound resource = ApiResponseUtil_error (resource @ '' not found'') None 404"

definition unauthorized :: "string \<Rightarrow> 'a ApiResponse" where
  "unauthorized msg = ApiResponseUtil_error msg None 401"

text \<open>\<open>s.split(sep)\<close> for a one-character separator: the fields between the separators, at least one.\<close>

fun split_on :: "char \<Rightarrow> string \<Rightarrow> string list" where
  "split_on sep [] = [[]]"
| "split_on sep (c # cs) =
     (if c = sep then [] # split_on sep cs
      else (case split_on sep cs of [] \<Rightarrow> [[c]] | w # ws \<Rightarrow> (c # w) # ws))"

text \<open>\<open>xs[i]\<close>: \<open>undefined\<close> out of range.\<close>

definition array_index :: "'a list \<Rightarrow> nat \<Rightarrow> 'a option" where
  "array_index xs i = (if i < length xs then Some (xs ! i) else None)"

text \<open>
  \<open>authHeader && authHeader.split(' ')[1]\<close>. An absent header gives \<open>undefined\<close>, an empty
  header gives the empty string itself, any other header its second space-separated field.
\<close>

definition token_of_header :: "string option \<Rightarrow> string option" where
  "token_of_header authHeader =
     (case authHeader of
        None \<Rightarrow> None
      | Some h \<Rightarrow> if h = [] then Some h else array_index (split_on (CHR '' '') h) 1)"

text \<open>What a middleware does: it answers, or it calls \<open>next()\<close> with the request as it left it.\<close>

datatype 'a outcome = Respond "'a ApiResponse" | Next Request

text \<open>
  The gate. \<open>verifyToken\<close> stands for \<open>AuthUtil.verifyToken\<close>, which hands the token to the
  \<open>jsonwebtoken\<close> library: \<open>Inr\<close> the decoded identity, \<open>Inl\<close> whatever it throws. \<open>!token\<close>
  holds for \<open>undefined\<close> and for the empty string.
\<close>

definition authenticateToken :: "(string \<Rightarrow> exn + JwtPayload) \<Rightarrow> Request \<Rightarrow> 'a outcome" where
  "authenticateToken verifyToken req =
     (case token_of_header (authorization req) of
        None \<Rightarrow> Respond (unauthorized ''Access token required'')
      | Some token \<Rightarrow>
          if token = [] then Respond (unauthorized ''Access token required'')
          else (case verifyToken token of
                  Inr decoded \<Rightarrow> Next (req\<lparr>user := Some decoded\<rparr>)
                | Inl _ \<Rightarrow> Respond (unauthorized ''Invalid or expired token'')))"

text \<open>The substring after the first space of a header, in the words of the specification.\<close>

definition after_first_space :: "string \<Rightarrow> string" where
  "after_first_space h = drop 1 (dropWhile (\<lambda>c. c \<noteq> CHR '' '') h)"

section \<open>AuthService and the handlers\<close>

text \<open>
  The user table, the login payload (\<open>loginSchema\<close>) and what \<open>AuthService.login\<close> returns.
  \<open>password\<close> is the stored hash.
\<close>

record User =
  user_id :: ident
  user_email :: string
  password :: string
  createdAt :: nat

record LoginInput =
  login_email :: string
  login_password :: string

record PublicUser =
  pub_id :: ident
  pub_email :: string
  pub_createdAt :: nat

record LoginResult =
  token :: string
  login_user :: PublicUser

text \<open>
  \<open>AuthService.login\<close>. \<open>comparePassword\<close> stands for \<open>AuthUtil.comparePassword\<close> (bcrypt) and
  \<open>generateToken\<close> for \<open>AuthUtil.generateToken\<close> (jsonwebtoken), both library calls.
\<close>

definition login ::
  "(string \<Rightarrow> string \<Rightarrow> bool) \<Rightarrow> (JwtPayload \<Rightarrow> string) \<Rightarrow> User list \<Rightarrow> LoginInput \<Rightarrow>
     exn + LoginResult" where
  "login comparePassword generateToken users credentials =
     (case find (\<lambda>u. user_email u = login_email credentials) users of
        None \<Rightarrow> Inl (Error ''Invalid credentials'')
      | Some u \<Rightarrow>
          if \<not> comparePassword (login_password credentials) (password u)
          then Inl (Error ''Invalid credentials'')
          else Inr \<lparr>token = generateToken \<lparr>userId = user_id u, email = user_email u\<rparr>,
                    login_user = \<lparr>pub_id = user_id u, pub_email = user_email u,
                                  pub_createdAt = createdAt u\<rparr>\<rparr>)"

text \<open>The handlers: each wraps its service call in \<open>try\<close>/\<open>catch\<close> and answers with an envelope.\<close>

definition AuthController_login ::
  "(string \<Rightarrow> string \<Rightarrow> bool) \<Rightarrow> (JwtPayload \<Rightarrow> string) \<Rightarrow> User list \<Rightarrow> LoginInput \<Rightarrow>
     LoginResult ApiResponse" where
  "AuthController_login comparePassword generateToken users body =
     (case login comparePassword generateToken users body of
        Inr result \<Rightarrow> ApiResponseUtil_success ''Login successful'' (Some result) 200
      | Inl e \<Rightarrow> ApiResponseUtil_error ''Login failed'' (Some (exn_message e)) 401)"

definition OrderController_createOrder ::
  "bool \<Rightarrow> nat \<Rightarrow> ('n::{zero,plus,times}) database \<Rightarrow> 'n CreateOrderInput \<Rightarrow>
     'n database \<times> 'n OrderWithRelations ApiResponse" where
  "OrderController_createOrder uniq year db body =
     (case createOrder uniq year db body of
        (db', Inr ord) \<Rightarrow> (db', ApiResponseUtil_success ''Order created successfully'' (Some ord) 201)
      | (db', Inl e) \<Rightarrow> (db', ApiResponseUtil_error ''Failed to create order'' (Some (exn_message e)) 400))"

definition OrderController_getOrderById ::
  "'n database \<Rightarrow> ident \<Rightarrow> 'n OrderWithRelations ApiResponse" where
  "OrderController_getOrderById db oid =
     (case getOrderById db oid of
        Inr ord \<Rightarrow> ApiResponseUtil_success ''Order retrieved successfully'' (Some ord) 200
      | Inl _ \<Rightarrow> notFound ''Order'')"

definition OrderController_updateOrder ::
  "('n::{zero,plus,times}) database \<Rightarrow> ident \<Rightarrow> 'n UpdateOrderInput \<Rightarrow>
     'n database \<times> 'n OrderWithRelations ApiResponse" where
  "OrderController_updateOrder db oid body =
     (case updateOrder db oid body of
        (db', Inr ord) \<Rightarrow> (db', ApiResponseUtil_success ''Order updated successfully'' (Some ord) 200)
      | (db', Inl _) \<Rightarrow> (db', notFound ''Order''))"

definition OrderController_deleteOrder :: "'n database \<Rightarrow> ident \<Rightarrow> 'n database \<times> unit ApiResponse" where
  "OrderController_deleteOrder db oid =
     (case deleteOrder db oid of
        (db', Inr _) \<Rightarrow> (db', ApiResponseUtil_success ''Order deleted successfully'' None 200)
      | (db', Inl _) \<Rightarrow> (db', notFound ''Order''))"

section \<open>Pagination query\<close>

text \<open>
  A JavaScript string is a sequence of UTF-16 code units, here natural numbers. \<open>js\<close> reads
  an ASCII literal as such a string.
\<close>

type_synonym jsstring = "nat list"

definition js :: "string \<Rightarrow> jsstring" where
  "js s = map of_char s"

text \<open>
  The code units \<open>parseInt\<close> skips at the start (ECMAScript's \<open>WhiteSpace\<close> and
  \<open>LineTerminator\<close>): U+0009 to U+000D, U+0020, U+00A0, U+1680, U+2000 to U+200A, U+2028,
  U+2029, U+202F, U+205F, U+3000 and U+FEFF, written in decimal.
\<close>

definition is_white_space :: "nat \<Rightarrow> bool" where
  "is_white_space u \<longleftrightarrow>
     u \<in> set [9, 10, 11, 12, 13, 32, 160, 5760, 8232, 8233, 8239, 8287, 12288, 65279] \<or>
     (8192 \<le> u \<and> u \<le> 8202)"

text \<open>The decimal digits \<open>0\<close> to \<open>9\<close> as code units, and the number a run of them denotes.\<close>

definition is_digit_unit :: "nat \<Rightarrow> bool" where
  "is_digit_unit u \<longleftrightarrow> 48 \<le> u \<and> u \<le> 57"

definition digits_value :: "jsstring \<Rightarrow> nat" where
  "digits_value z = foldl (\<lambda>a u. 10 * a + (u - 48)) 0 z"

text \<open>
  The Number values \<open>parseInt\<close> can return: \<open>NaN\<close>, negative zero, an integer of magnitude at
  most \<open>2^53\<close>, which a double holds exactly, and \<open>Rounded n\<close> for the double that JavaScript
  takes for an integer \<open>n\<close> beyond that, which is not computed here.
\<close>

datatype jsnum = NaN | NegZero | Num int | Rounded int

text \<open>The last steps of \<open>parseInt\<close>: the Number for a sign and a magnitude.\<close>

definition number_of :: "bool \<Rightarrow> nat \<Rightarrow> jsnum" where
  "number_of neg n =
     (if n = 0 then (if neg then NegZero else Num 0)
      else if n \<le> 9007199254740992 then Num (if neg then - int n else int n)
      else Rounded (if neg then - int n else int n))"

text \<open>
  \<open>parseInt(s, 10)\<close>: skip leading white space, read one optional sign (\<open>+\<close> is 43, \<open>-\<close> is
  45), then the longest run of decimal digits; \<open>NaN\<close> when that run is empty, and whatever
  follows the run is ignored.
\<close>

definition parseInt10 :: "jsstring \<Rightarrow> jsnum" where
  "parseInt10 s =
     (let t = dropWhile is_white_space s;
          neg = (t \<noteq> [] \<and> hd t = 45);
          u = (if t \<noteq> [] \<and> (hd t = 43 \<or> hd t = 45) then tl t else t);
          z = takeWhile is_digit_unit u
      in if z = [] then NaN else number_of neg (digits_value z))"

text \<open>The query as Express hands it over, and \<open>paginationSchema\<close> after its transforms.\<close>

record PaginationQuery =
  q_page :: "jsstring option"
  q_limit :: "jsstring option"

record PaginationInput =
  page :: jsnum
  limit :: jsnum

text \<open>\<open>val ? parseInt(val, 10) : 1\<close> (and \<open>10\<close>): \<open>val\<close> is falsy when absent and when empty.\<close>

definition paginationSchema :: "PaginationQuery \<Rightarrow> PaginationInput" where
  "paginationSchema q =
     \<lparr>page = (case q_page q of None \<Rightarrow> Num 1 | Some val \<Rightarrow> if val \<noteq> [] then parseInt10 val else Num 1),
      limit = (case q_limit q of None \<Rightarrow> Num 10 | Some val \<Rightarrow> if val \<noteq> [] then parseInt10 val else Num 10)\<rparr>"

text \<open>
  A string cut into its four parts: leading white space, at most one sign, the longest run
  of digits after it, and a rest that does not start with a digit. When there is neither
  sign nor digit, the rest starts with something that is not white space and not a sign.
\<close>

definition well_split :: "jsstring \<Rightarrow> jsstring \<Rightarrow> jsstring \<Rightarrow> jsstring \<Rightarrow> bool" where
  "well_split ws sg ds rest \<longleftrightarrow>
     list_all is_white_space ws \<and> (sg = [] \<or> sg = [43] \<or> sg = [45]) \<and>
     list_all is_digit_unit ds \<and> (rest = [] \<or> \<not> is_digit_unit (hd rest)) \<and>
     (sg = [] \<and> ds = [] \<longrightarrow>
        rest = [] \<or> (\<not> is_white_space (hd rest) \<and> hd rest \<noteq> 43 \<and> hd rest \<noteq> 45))"

section \<open>Example data\<close>

definition db1 :: "int database" where
  "db1 = \<lparr>customers = [\<lparr>customer_id = 1, firstName = ''Alice'', lastName = ''Wilson'',
                          customer_email = ''alice@example.com'', phone = None, address = None\<rparr>],
          orders = [\<lparr>order_id = 2, orderNumber = ''ORD-2026-000001'', status = CONFIRMED,
                     totalAmount = 6, order_notes = None, customerId = 1\<rparr>],
          orderItems = [\<lparr>productName = ''Pen'', quantity = 2, unitPrice = 3, totalPrice = 6,
                         item_id = 3, orderId = 2\<rparr>],
          nextId = 4\<rparr>"

definition new_items :: "int OrderItemInput list" where
  "new_items = [\<lparr>productName = ''Laptop'', quantity = 1, unitPrice = 1000\<rparr>,
                \<lparr>productName = ''Mouse'', quantity = 2, unitPrice = 30\<rparr>]"

definition create1 :: "int CreateOrderInput" where
  "create1 = \<lparr>in_customerId = 1, in_status = None, in_notes = None, in_items = new_items\<rparr>"

definition update1 :: "int UpdateOrderInput" where
  "update1 = \<lparr>upd_status = Some SHIPPED, upd_notes = None, upd_items = Some new_items\<rparr>"

definition update2 :: "int UpdateOrderInput" where
  "update2 = \<lparr>upd_status = Some SHIPPED, upd_notes = None, upd_items = None\<rparr>"

text \<open>
  A store holding 999999 orders made in 2025, and a store with one customer and no order
  yet, from which three orders are created and the first of them is deleted.
\<close>

definition old_order :: "nat \<Rightarrow> int Order" where
  "old_order k = \<lparr>order_id = k, orderNumber = generateOrderNumber 2025 k, status = DELIVERED,
                  totalAmount = 0, order_notes = None, customerId = 1000000\<rparr>"

definition db_big :: "int database" where
  "db_big = \<lparr>customers = [\<lparr>customer_id = 1000000, firstName = ''Alice'', lastName = ''Wilson'',
                             customer_email = ''alice@example.com'', phone = None, address = None\<rparr>],
             orders = map old_order [0 ..< 999999],
             orderItems = [],
             nextId = 1000001\<rparr>"

definition create_big :: "int CreateOrderInput" where
  "create_big = \<lparr>in_customerId = 1000000, in_status = None, in_notes = None, in_items = new_items\<rparr>"

definition db0 :: "int database" where
  "db0 = \<lparr>customers = [\<lparr>customer_id = 1, firstName = ''Alice'', lastName = ''Wilson'',
                          customer_email = ''alice@example.com'', phone = None, address = None\<rparr>],
          orders = [], orderItems = [], nextId = 2\<rparr>"

fun after_creates :: "bool \<Rightarrow> nat \<Rightarrow> int database" where
  "after_creates uniq 0 = db0"
| "after_creates uniq (Suc n) = fst (createOrder uniq 2026 (after_creates uniq n) create1)"

definition three_then_delete :: "bool \<Rightarrow> int database" where
  "three_then_delete uniq = fst (deleteOrder (after_creates uniq 3) 2)"

text \<open>A verifier that accepts one token, and an identity.\<close>

definition only_accepts :: "string \<Rightarrow> JwtPayload \<Rightarrow> string \<Rightarrow> exn + JwtPayload" where
  "only_accepts good p t = (if t = good then Inr p else Inl (Error ''invalid signature''))"

definition alice :: JwtPayload where
  "alice = \<lparr>userId = 1, email = ''admin@example.com''\<rparr>"

text \<open>A password check, a token issuer and a user table to run the login on.\<close>

definition password_is :: "string \<Rightarrow> string \<Rightarrow> bool" where
  "password_is plain hashed \<longleftrightarrow> hashed = ''hash:'' @ plain"

definition token_for :: "JwtPayload \<Rightarrow> string" where
  "token_for p = ''token:'' @ email p"

definition users1 :: "User list" where
  "users1 = [\<lparr>user_id = 1, user_email = ''admin@example.com'', password = ''hash:admin123'',
               createdAt = 0\<rparr>]"

definition create_unknown :: "int CreateOrderInput" where
  "create_unknown = \<lparr>in_customerId = 99, in_status = None, in_notes = None, in_items = new_items\<rparr>"

section \<open>Lemmas about the store\<close>

lemma create_items_fields:
  "map totalPrice (create_items oid s cs) = map totalPrice cs"
  "map quantity (create_items oid s cs) = map quantity cs"
  "map unitPrice (create_items oid s cs) = map unitPrice cs"
  "map productName (create_items oid s cs) = map productName cs"
  "map orderId (create_items oid s cs) = replicate (length cs) oid"
  by (induction cs arbitrary: s; simp add: create_items_def)+

lemma create_items_ids: "map item_id (create_items oid s cs) = [s ..< s + length cs]"
proof -
  have "map item_id (create_items oid s cs) = map fst (enumerate s cs)"
    by (simp add: create_items_def case_prod_beta comp_def)
  then show ?thesis by (simp add: map_fst_enumerate)
qed

lemma length_create_items [simp]: "length (create_items oid s cs) = length cs"
  by (simp add: create_items_def)

lemma create_items_set:
  "i \<in> set (create_items oid s cs) \<Longrightarrow>
     orderId i = oid \<and> s \<le> item_id i \<and> item_id i < s + length cs \<and>
     (\<exists>c \<in> set cs. totalPrice i = totalPrice c \<and> quantity i = quantity c \<and>
        unitPrice i = unitPrice c \<and> productName i = productName c)"
  by (induction cs arbitrary: s) (fastforce simp: create_items_def)+

lemma foldl_map_fun: "foldl f a (map g xs) = foldl (\<lambda>s x. f s (g x)) a xs"
  by (induction xs arbitrary: a) simp_all

lemma sum_totalPrice_alt: "sum_totalPrice its = foldl (+) 0 (map totalPrice its)"
  by (simp add: sum_totalPrice_def foldl_map_fun)

lemma items_total_alt:
  "items_total its = foldl (+) 0 (map totalPrice (map with_totalPrice its))"
  by (simp add: items_total_def foldl_map_fun with_totalPrice_def)

lemma sum_totalPrice_create_items:
  "sum_totalPrice (create_items oid s (map with_totalPrice its)) = items_total its"
  by (simp only: sum_totalPrice_alt items_total_alt create_items_fields)

lemma filter_create_items_same [simp]:
  "filter (\<lambda>i. orderId i = oid) (create_items oid s cs) = create_items oid s cs"
  by (rule filter_True) (auto dest: create_items_set)

lemma filter_create_items_other [simp]:
  "oid' \<noteq> oid \<Longrightarrow> filter (\<lambda>i. orderId i = oid') (create_items oid s cs) = []"
  by (rule filter_False) (auto dest: create_items_set)

lemma create_items_price:
  "i \<in> set (create_items oid s (map with_totalPrice its)) \<Longrightarrow> totalPrice i = quantity i * unitPrice i"
  by (drule create_items_set) (auto simp: with_totalPrice_def)

lemma createOrder_Inr:
  assumes "createOrder uniq year db d = (db', Inr r)"
  shows "db' = db\<lparr>orders := orders db @ [new_order year db d],
                    orderItems := orderItems db @
                      create_items (nextId db) (Suc (nextId db)) (map with_totalPrice (in_items d)),
                    nextId := Suc (nextId db) + length (in_items d)\<rparr>"
    and "r = order_include db' (new_order year db d)"
    and "find (\<lambda>c. customer_id c = in_customerId d) (customers db) \<noteq> None"
  using assms
  by (auto simp: createOrder_def prisma_order_create_def new_order_def Let_def
           split: option.splits if_splits)

lemma createOrder_Inl: "createOrder uniq year db d = (db', Inl e) \<Longrightarrow> db' = db"
  by (auto simp: createOrder_def prisma_order_create_def Let_def split: option.splits if_splits)

lemma old_items_not_new:
  assumes "wf_db db"
  shows "filter (\<lambda>i. orderId i = nextId db) (orderItems db) = []"
  using assms by (fastforce simp: wf_db_def filter_empty_conv)

lemma createOrder_wf:
  assumes "wf_db db"
  shows "wf_db (fst (createOrder uniq year db d))"
proof (cases "createOrder uniq year db d")
  case (Pair db' res)
  show ?thesis
  proof (cases res)
    case (Inl e)
    from createOrder_Inl[OF Pair[unfolded Inl]] assms show ?thesis by (simp add: Pair)
  next
    case (Inr r)
    note eq = createOrder_Inr(1)[OF Pair[unfolded Inr]]
    show ?thesis using assms unfolding Pair fst_conv eq
      by (fastforce simp: wf_db_def new_order_def dest!: create_items_set)
  qed
qed

lemma createOrder_totals:
  assumes "wf_db db" "totals_ok db"
  shows "totals_ok (fst (createOrder uniq year db d))"
proof (cases "createOrder uniq year db d")
  case (Pair db' res)
  show ?thesis
  proof (cases res)
    case (Inl e)
    from createOrder_Inl[OF Pair[unfolded Inl]] assms show ?thesis by (simp add: Pair)
  next
    case (Inr r)
    note eq = createOrder_Inr(1)[OF Pair[unfolded Inr]]
    have old: "\<And>x. x \<in> set (orders db) \<Longrightarrow> order_id x \<noteq> nextId db"
      using assms(1) by (auto simp: wf_db_def)
    show ?thesis using assms(2) old_items_not_new[OF assms(1)] old
      unfolding Pair fst_conv eq
      by (auto simp: totals_ok_def items_of_def new_order_def sum_totalPrice_create_items
            create_items_price)
  qed
qed

lemma merge_update_id [simp]: "order_id (merge_update old st nts a) = order_id old"
  by (simp add: merge_update_def)

lemma updateOrder_absent:
  "find (\<lambda>x. order_id x = oid) (orders db) = None \<Longrightarrow>
     updateOrder db oid d = (db, Inl (Error ''Order not found''))"
  by (simp add: updateOrder_def prisma_order_update_def catch_not_found_def split: option.splits)

lemma updateOrder_items:
  assumes "find (\<lambda>x. order_id x = oid) (orders db) = Some old" and "upd_items d = Some its"
  shows "updateOrder db oid d =
    (let ord = merge_update old (upd_status d) (upd_notes d) (Some (items_total its));
         db' = db\<lparr>orders := map (\<lambda>x. if order_id x = oid then ord else x) (orders db),
                  orderItems := filter (\<lambda>i. orderId i \<noteq> oid) (orderItems db)
                                @ create_items oid (nextId db) (map with_totalPrice its),
                  nextId := nextId db + length its\<rparr>
     in (db', Inr (order_include db' ord)))"
  using assms
  by (simp add: updateOrder_def prisma_order_update_def catch_not_found_def Let_def)

lemma updateOrder_no_items:
  assumes "find (\<lambda>x. order_id x = oid) (orders db) = Some old" and "upd_items d = None"
  shows "updateOrder db oid d =
    (let ord = merge_update old (upd_status d) (upd_notes d) None;
         db' = db\<lparr>orders := map (\<lambda>x. if order_id x = oid then ord else x) (orders db)\<rparr>
     in (db', Inr (order_include db' ord)))"
  using assms
  by (simp add: updateOrder_def prisma_order_update_def catch_not_found_def Let_def)

lemma find_by_id:
  "find (\<lambda>x. order_id x = oid) xs = Some old \<Longrightarrow> old \<in> set xs \<and> order_id old = oid"
  by (auto simp: find_Some_iff)

lemma filter_filter_other:
  "k \<noteq> oid \<Longrightarrow> filter (\<lambda>i. orderId i \<noteq> oid \<and> orderId i = k) xs = filter (\<lambda>i. orderId i = k) xs"
  by (rule filter_cong) auto

lemma filter_filter_same:
  "filter (\<lambda>i. orderId i \<noteq> oid \<and> orderId i = oid) xs = []"
  by simp

lemma wf_dbI:
  assumes "\<And>x. x \<in> set (orders db) \<Longrightarrow> order_id x < nextId db"
    and "\<And>i. i \<in> set (orderItems db) \<Longrightarrow> item_id i < nextId db"
    and "\<And>i. i \<in> set (orderItems db) \<Longrightarrow> \<exists>x \<in> set (orders db). order_id x = orderId i"
  shows "wf_db db"
  unfolding wf_db_def using assms by blast

lemma wf_dbD:
  fixes db :: "'n database"
  assumes "wf_db db"
  shows "x \<in> set (orders db) \<Longrightarrow> order_id x < nextId db"
    and "i \<in> set (orderItems db) \<Longrightarrow> item_id i < nextId db"
    and "i \<in> set (orderItems db) \<Longrightarrow> \<exists>x \<in> set (orders db). order_id x = orderId i"
  using assms by (simp_all add: wf_db_def)

lemma in_replaced:
  fixes xs :: "'n Order list"
  shows "y \<in> set (map (\<lambda>x. if order_id x = oid then ord else x) xs) \<Longrightarrow> y = ord \<or> y \<in> set xs"
  by auto

lemma replaced_has_id:
  fixes xs :: "'n Order list"
  assumes "order_id ord = oid" "x \<in> set xs"
  shows "\<exists>y \<in> set (map (\<lambda>x. if order_id x = oid then ord else x) xs). order_id y = order_id x"
proof -
  let ?f = "\<lambda>x. if order_id x = oid then ord else x"
  have "?f x \<in> set (map ?f xs)"
    using assms(2) by (simp only: set_map) (rule imageI)
  moreover have "order_id (?f x) = order_id x"
    using assms(1) by (cases "order_id x = oid") simp_all
  ultimately show ?thesis by (rule bexI[rotated])
qed

lemma updateOrder_wf:
  assumes "wf_db db"
  shows "wf_db (fst (updateOrder db oid d))"
proof (cases "find (\<lambda>x. order_id x = oid) (orders db)")
  case None
  then show ?thesis using assms by (simp add: updateOrder_absent)
next
  case (Some old)
  note old = find_by_id[OF Some]
  show ?thesis
  proof (cases "upd_items d")
    case None
    let ?ord = "merge_update old (upd_status d) (upd_notes d) None"
    let ?db = "db\<lparr>orders := map (\<lambda>x. if order_id x = oid then ?ord else x) (orders db)\<rparr>"
    have "wf_db ?db"
    proof (rule wf_dbI)
      fix x assume "x \<in> set (orders ?db)"
      then have "x = ?ord \<or> x \<in> set (orders db)" by auto
      then show "order_id x < nextId ?db" using wf_dbD(1)[OF assms] old by auto
    next
      fix i assume "i \<in> set (orderItems ?db)"
      then show "item_id i < nextId ?db" using wf_dbD(2)[OF assms] by simp
    next
      fix i assume "i \<in> set (orderItems ?db)"
      then obtain x where "x \<in> set (orders db)" "order_id x = orderId i"
        using wf_dbD(3)[OF assms] by auto
      then show "\<exists>x \<in> set (orders ?db). order_id x = orderId i"
        using replaced_has_id[of ?ord oid x "orders db"] old by simp
    qed
    then show ?thesis by (simp add: updateOrder_no_items[OF Some None] Let_def)
  next
    case (Some its)
    let ?ord = "merge_update old (upd_status d) (upd_notes d) (Some (items_total its))"
    let ?new = "create_items oid (nextId db) (map with_totalPrice its)"
    let ?db = "db\<lparr>orders := map (\<lambda>x. if order_id x = oid then ?ord else x) (orders db),
                     orderItems := filter (\<lambda>i. orderId i \<noteq> oid) (orderItems db) @ ?new,
                     nextId := nextId db + length its\<rparr>"
    have new: "item_id i < nextId db + length its \<and> orderId i = oid" if "i \<in> set ?new" for i
      using create_items_set[OF that] by simp
    have "wf_db ?db"
    proof (rule wf_dbI)
      fix x assume "x \<in> set (orders ?db)"
      then have "x = ?ord \<or> x \<in> set (orders db)" by auto
      then show "order_id x < nextId ?db" using wf_dbD(1)[OF assms] old by (auto simp: trans_less_add1)
    next
      fix i assume "i \<in> set (orderItems ?db)"
      then have "i \<in> set (orderItems db) \<or> i \<in> set ?new" by auto
      then show "item_id i < nextId ?db" using wf_dbD(2)[OF assms] new by (auto simp: trans_less_add1)
    next
      fix i assume "i \<in> set (orderItems ?db)"
      then have "i \<in> set (orderItems db) \<or> i \<in> set ?new" by auto
      then obtain x where "x \<in> set (orders db)" "order_id x = orderId i"
        using wf_dbD(3)[OF assms] new old by auto
      then show "\<exists>x \<in> set (orders ?db). order_id x = orderId i"
        using replaced_has_id[of ?ord oid x "orders db"] old by simp
    qed
    then show ?thesis by (simp add: updateOrder_items[OF \<open>find _ _ = Some old\<close> Some] Let_def)
  qed
qed

lemma updateOrder_totals:
  assumes "totals_ok db"
  shows "totals_ok (fst (updateOrder db oid d))"
proof (cases "find (\<lambda>x. order_id x = oid) (orders db)")
  case None
  then show ?thesis using assms by (simp add: updateOrder_absent)
next
  case (Some old)
  note old = find_by_id[OF Some]
  show ?thesis
  proof (cases "upd_items d")
    case None
    show ?thesis using assms old unfolding updateOrder_no_items[OF Some None] Let_def fst_conv
      by (auto simp: totals_ok_def items_of_def merge_update_def)
  next
    case (Some its)
    show ?thesis using assms old unfolding updateOrder_items[OF \<open>find _ _ = Some old\<close> Some] Let_def fst_conv
      by (auto simp: totals_ok_def items_of_def merge_update_def filter_filter_other
            filter_filter_same sum_totalPrice_create_items create_items_price)
  qed
qed

lemma deleteOrder_wf: "wf_db db \<Longrightarrow> wf_db (fst (deleteOrder db oid))"
  by (fastforce simp: deleteOrder_def prisma_order_delete_def catch_not_found_def wf_db_def image_iff
        split: option.splits)

lemma deleteOrder_totals: "totals_ok db \<Longrightarrow> totals_ok (fst (deleteOrder db oid))"
  by (auto simp: deleteOrder_def prisma_order_delete_def catch_not_found_def totals_ok_def
        items_of_def filter_filter_other split: option.splits)

lemma order_include_simps [simp]:
  "order (order_include db ord) = ord"
  "items (order_include db ord) = items_of db (order_id ord)"
  by (simp_all add: order_include_def)

lemma create_items_matches:
  "matches_input (create_items oid s (map with_totalPrice its)) its"
  by (simp add: matches_input_def create_items_fields with_totalPrice_def comp_def)

lemma createOrder_result:
  fixes db :: "('n::{zero,plus,times}) database"
  assumes wf: "wf_db db" and ok: "createOrder uniq year db d = (db', Inr r)"
  shows "totalAmount (order r) = items_total (in_items d)"
    and "matches_input (items r) (in_items d)"
    and "totalAmount (order r) = sum_totalPrice (items r)"
    and "order r \<in> set (orders db')"
    and "items r = items_of db' (order_id (order r))"
proof -
  note eq = createOrder_Inr(1,2)[OF ok]
  have its: "items r = create_items (nextId db) (Suc (nextId db)) (map with_totalPrice (in_items d))"
    unfolding eq(2) using old_items_not_new[OF wf]
    by (simp add: eq(1) items_of_def new_order_def)
  show "totalAmount (order r) = items_total (in_items d)"
    by (simp add: eq(2) new_order_def)
  show "matches_input (items r) (in_items d)"
    unfolding its by (rule create_items_matches)
  show "totalAmount (order r) = sum_totalPrice (items r)"
    unfolding its sum_totalPrice_create_items by (simp add: eq(2) new_order_def)
  show "order r \<in> set (orders db')"
    by (simp add: eq(2)) (simp add: eq(1))
  show "items r = items_of db' (order_id (order r))"
    by (simp add: eq(2))
qed

lemma updateOrder_Inr:
  assumes "updateOrder db oid u = (db', Inr r)"
  shows "\<exists>old. find (\<lambda>x. order_id x = oid) (orders db) = Some old"
  using assms by (cases "find (\<lambda>x. order_id x = oid) (orders db)") (simp_all add: updateOrder_absent)

lemma updateOrder_result:
  fixes db :: "('n::{zero,plus,times}) database"
  assumes items: "upd_items u = Some its" and ok: "updateOrder db oid u = (db', Inr r)"
  shows "totalAmount (order r) = items_total its"
    and "matches_input (items r) its"
    and "totalAmount (order r) = sum_totalPrice (items r)"
    and "order r \<in> set (orders db')"
    and "items r = items_of db' (order_id (order r))"
proof -
  obtain old where old: "find (\<lambda>x. order_id x = oid) (orders db) = Some old"
    using updateOrder_Inr[OF ok] by blast
  note id = find_by_id[OF old]
  let ?ord = "merge_update old (upd_status u) (upd_notes u) (Some (items_total its))"
  let ?db = "db\<lparr>orders := map (\<lambda>x. if order_id x = oid then ?ord else x) (orders db),
                   orderItems := filter (\<lambda>i. orderId i \<noteq> oid) (orderItems db)
                                 @ create_items oid (nextId db) (map with_totalPrice its),
                   nextId := nextId db + length its\<rparr>"
  have eq: "db' = ?db" "r = order_include ?db ?ord"
    using ok unfolding updateOrder_items[OF old items] Let_def by auto
  have its: "items r = create_items oid (nextId db) (map with_totalPrice its)"
    unfolding eq(2) using id by (simp add: items_of_def filter_filter_same)
  show "totalAmount (order r) = items_total its"
    by (simp add: eq(2) merge_update_def)
  show "matches_input (items r) its"
    unfolding its by (rule create_items_matches)
  show "totalAmount (order r) = sum_totalPrice (items r)"
    unfolding its sum_totalPrice_create_items by (simp add: eq(2) merge_update_def)
  have "?ord \<in> set (orders ?db)"
    using id by (force simp: image_iff)
  then show "order r \<in> set (orders db')"
    unfolding eq by simp
  show "items r = items_of db' (order_id (order r))"
    unfolding eq by simp
qed

section \<open>Order totals\<close>

text \<open>
  C1. For every input with N items for which \<open>createOrder\<close> returns an order, the order's
  \<open>totalAmount\<close> is the sum over the N items of quantity times unit price, the persisted
  items are the N input items with \<open>totalPrice\<close> equal to quantity times unit price, and
  \<open>totalAmount\<close> is the sum of the persisted items' \<open>totalPrice\<close>. The same holds after
  \<open>updateOrder\<close> when the input carries an item list. On a well-formed store whose totals
  are consistent, \<open>createOrder\<close>, \<open>updateOrder\<close> and \<open>deleteOrder\<close> all leave the store
  well formed and its totals consistent, whatever their input and outcome.
\<close>

theorem order_totals:
  fixes db :: "('n::{zero,plus,times}) database"
  assumes "wf_db db" and "totals_ok db"
  shows "(\<forall>db' r. createOrder uniq year db d = (db', Inr r) \<longrightarrow>
            totalAmount (order r) = items_total (in_items d) \<and>
            matches_input (items r) (in_items d) \<and>
            totalAmount (order r) = sum_totalPrice (items r) \<and>
            order r \<in> set (orders db') \<and> items r = items_of db' (order_id (order r))) \<and>
         (\<forall>its db' r. upd_items u = Some its \<and> updateOrder db oid u = (db', Inr r) \<longrightarrow>
            totalAmount (order r) = items_total its \<and>
            matches_input (items r) its \<and>
            totalAmount (order r) = sum_totalPrice (items r) \<and>
            order r \<in> set (orders db') \<and> items r = items_of db' (order_id (order r))) \<and>
         wf_db (fst (createOrder uniq year db d)) \<and> totals_ok (fst (createOrder uniq year db d)) \<and>
         wf_db (fst (updateOrder db oid u)) \<and> totals_ok (fst (updateOrder db oid u)) \<and>
         wf_db (fst (deleteOrder db oid)) \<and> totals_ok (fst (deleteOrder db oid))"
proof (intro conjI allI impI)
  fix db' r assume "createOrder uniq year db d = (db', Inr r)"
  note res = createOrder_result[OF assms(1) this]
  show "totalAmount (order r) = items_total (in_items d)" by (rule res)
  show "matches_input (items r) (in_items d)" by (rule res)
  show "totalAmount (order r) = sum_totalPrice (items r)" by (rule res)
  show "order r \<in> set (orders db')" by (rule res)
  show "items r = items_of db' (order_id (order r))" by (rule res)
next
  fix its db' r assume "upd_items u = Some its \<and> updateOrder db oid u = (db', Inr r)"
  then have a: "upd_items u = Some its" and b: "updateOrder db oid u = (db', Inr r)" by simp_all
  note res = updateOrder_result[OF a b]
  show "totalAmount (order r) = items_total its" by (rule res)
  show "matches_input (items r) its" by (rule res)
  show "totalAmount (order r) = sum_totalPrice (items r)" by (rule res)
  show "order r \<in> set (orders db')" by (rule res)
  show "items r = items_of db' (order_id (order r))" by (rule res)
qed (simp_all add: assms createOrder_wf createOrder_totals updateOrder_wf updateOrder_totals
       deleteOrder_wf deleteOrder_totals)

theorem order_totals_witness:
  "wf_db db1 \<and> totals_ok db1 \<and>
   (\<exists>db' r. createOrder True 2026 db1 create1 = (db', Inr r) \<and>
      totalAmount (order r) = 1060 \<and> sum_totalPrice (items r) = 1060 \<and> totals_ok db') \<and>
   (\<exists>db' r. updateOrder db1 2 update1 = (db', Inr r) \<and>
      totalAmount (order r) = 1060 \<and> sum_totalPrice (items r) = 1060 \<and> totals_ok db')"
proof -
  have wf: "wf_db db1"
    by (simp add: wf_db_def db1_def)
  have ok: "totals_ok db1"
    by (simp add: totals_ok_def db1_def items_of_def sum_totalPrice_def)
  have sum: "items_total new_items = (1060::int)"
    by (simp add: items_total_def new_items_def)
  note inst = order_totals[OF wf ok, of True 2026 create1 update1 2]
  have "\<not> isl (snd (createOrder True 2026 db1 create1))"
    by code_simp
  then obtain db' r where c: "createOrder True 2026 db1 create1 = (db', Inr r)"
    by (cases "createOrder True 2026 db1 create1"; cases "snd (createOrder True 2026 db1 create1)") auto
  have "\<not> isl (snd (updateOrder db1 2 update1))"
    by code_simp
  then obtain dbu ru where u: "updateOrder db1 2 update1 = (dbu, Inr ru)"
    by (cases "updateOrder db1 2 update1"; cases "snd (updateOrder db1 2 update1)") auto
  have i: "upd_items update1 = Some new_items" "in_items create1 = new_items"
    by (simp_all add: update1_def create1_def)
  from inst c sum i have 1: "totalAmount (order r) = 1060 \<and> sum_totalPrice (items r) = 1060 \<and> totals_ok db'"
    by auto
  from inst u sum i have 2: "totalAmount (order ru) = 1060 \<and> sum_totalPrice (items ru) = 1060 \<and> totals_ok dbu"
    by auto
  from wf ok c u 1 2 show ?thesis by blast
qed

lemma map_replace_ids:
  fixes xs :: "'n Order list"
  assumes "order_id ord = oid"
  shows "map order_id (map (\<lambda>x. if order_id x = oid then ord else x) xs) = map order_id xs"
proof -
  have "order_id (if order_id x = oid then ord else x) = order_id x" for x :: "'n Order"
    using assms by (cases "order_id x = oid") simp_all
  then show ?thesis by (simp add: comp_def)
qed

lemma distinct_append_fresh:
  fixes old :: "'n OrderItem list"
  assumes "distinct (map item_id old)" and "\<And>i. i \<in> set old \<Longrightarrow> item_id i < s"
  shows "distinct (map item_id (old @ create_items oid s cs))"
proof -
  have "set (map item_id old) \<inter> set [s ..< s + length cs] = {}"
    using assms(2) by fastforce
  then show ?thesis
    using assms(1) by (simp add: create_items_ids del: set_map set_upt)
qed

lemma createOrder_keys:
  fixes db :: "('n::{zero,plus,times}) database"
  assumes "wf_db db" "keys_ok db"
  shows "keys_ok (fst (createOrder uniq year db d))"
proof (cases "createOrder uniq year db d")
  case (Pair db' res)
  show ?thesis
  proof (cases res)
    case (Inl e)
    from createOrder_Inl[OF Pair[unfolded Inl]] assms show ?thesis by (simp add: Pair)
  next
    case (Inr r)
    note eq = createOrder_Inr(1)[OF Pair[unfolded Inr]]
    have fresh: "nextId db \<notin> set (map order_id (orders db))"
      using wf_dbD(1)[OF assms(1)] by fastforce
    have items: "distinct (map item_id (orderItems db @
        create_items (nextId db) (Suc (nextId db)) (map with_totalPrice (in_items d))))"
      using assms(2) wf_dbD(2)[OF assms(1)]
      by (intro distinct_append_fresh) (auto simp: keys_ok_def less_SucI)
    have ords: "distinct (map order_id (orders db @ [new_order year db d]))"
      using assms(2) fresh by (simp add: keys_ok_def new_order_def)
    show ?thesis using ords items unfolding Pair fst_conv eq
      by (simp add: keys_ok_def)
  qed
qed

lemma updateOrder_keys:
  fixes db :: "('n::{zero,plus,times}) database"
  assumes "wf_db db" "keys_ok db"
  shows "keys_ok (fst (updateOrder db oid u))"
proof (cases "find (\<lambda>x. order_id x = oid) (orders db)")
  case None
  then show ?thesis using assms by (simp add: updateOrder_absent)
next
  case (Some old)
  note old = find_by_id[OF Some]
  have ids: "map order_id (map (\<lambda>x. if order_id x = oid then merge_update old st nts a else x) (orders db))
      = map order_id (orders db)" for st nts a
    using old by (intro map_replace_ids) simp
  have ords: "distinct (map order_id (map (\<lambda>x. if order_id x = oid then merge_update old st nts a else x) (orders db)))"
    for st nts a
    using assms(2) by (simp only: ids keys_ok_def)
  show ?thesis
  proof (cases "upd_items u")
    case None
    show ?thesis using assms(2) ords unfolding updateOrder_no_items[OF Some None] Let_def fst_conv
      by (simp add: keys_ok_def)
  next
    case (Some its)
    have "distinct (map item_id (filter (\<lambda>i. orderId i \<noteq> oid) (orderItems db)))"
      using assms(2) by (simp add: keys_ok_def distinct_map_filter)
    then have "distinct (map item_id (filter (\<lambda>i. orderId i \<noteq> oid) (orderItems db) @
        create_items oid (nextId db) (map with_totalPrice its)))"
      using wf_dbD(2)[OF assms(1)] by (intro distinct_append_fresh) auto
    then show ?thesis using ords
      unfolding updateOrder_items[OF \<open>find _ _ = Some old\<close> Some] Let_def fst_conv
      by (simp add: keys_ok_def)
  qed
qed

lemma deleteOrder_keys: "keys_ok db \<Longrightarrow> keys_ok (fst (deleteOrder db oid))"
  by (simp add: deleteOrder_def prisma_order_delete_def catch_not_found_def keys_ok_def
        distinct_map_filter split: option.splits)

lemma items_of_after_replace:
  fixes db :: "'n database"
  shows "items_of (db\<lparr>orders := os, orderItems := filter (\<lambda>i. orderId i \<noteq> oid) (orderItems db) @ create_items oid s cs,
            nextId := n\<rparr>) k = (if k = oid then create_items oid s cs else items_of db k)"
  by (simp add: items_of_def filter_filter_other filter_filter_same)

lemma old_ids_gone:
  fixes db :: "'n database"
  assumes "wf_db db" "keys_ok db" "i \<in> set (items_of db oid)"
  shows "item_id i \<notin> set (map item_id (filter (\<lambda>i. orderId i \<noteq> oid) (orderItems db) @ create_items oid (nextId db) cs))"
proof -
  have i: "i \<in> set (orderItems db)" "orderId i = oid"
    using assms(3) by (simp_all add: items_of_def)
  have d: "distinct (map item_id (orderItems db))"
    using assms(2) by (simp add: keys_ok_def)
  have "j \<in> set (orderItems db) \<Longrightarrow> item_id j = item_id i \<Longrightarrow> j = i" for j
    using d i(1) by (meson distinct_map inj_onD)
  then have a: "item_id i \<notin> item_id ` set (filter (\<lambda>i. orderId i \<noteq> oid) (orderItems db))"
    using i(2) by auto
  have "item_id i < nextId db"
    using wf_dbD(2)[OF assms(1) i(1)] .
  then have b: "item_id i \<notin> set [nextId db ..< nextId db + length cs]"
    by simp
  show ?thesis using a b by (simp add: create_items_ids del: set_upt)
qed

lemma db1_wf: "wf_db db1"
  by (simp add: wf_db_def db1_def)

lemma db1_find:
  "find (\<lambda>x. order_id x = 2) (orders db1) \<noteq> None"
  "find (\<lambda>x. order_id x = 7) (orders db1) = None"
  by (simp_all add: db1_def)

section \<open>Replacing the items of an order\<close>

text \<open>
  What \<open>updateOrder\<close> with an item list does to the store, the single call of
  \<open>prisma.order.update\<close> taken as one step: when the order exists its items become exactly
  the new items, no identifier of a prior item remains, the items of every other order are
  untouched and \<open>totalAmount\<close> is recomputed; when the order does not exist the store is
  unchanged. What a failure of the database in the middle of the nested write leaves behind
  is decided by the client library's transaction, which is not part of the repository.
\<close>

lemma updateOrder_replaces_items:
  fixes db :: "('n::{zero,plus,times}) database"
  assumes "wf_db db" and "keys_ok db" and "upd_items u = Some its"
  shows "(\<exists>old db' r.
            find (\<lambda>x. order_id x = oid) (orders db) = Some old \<and>
            updateOrder db oid u = (db', Inr r) \<and>
            items_of db' oid = items r \<and> matches_input (items r) its \<and>
            (\<forall>i \<in> set (items_of db oid). item_id i \<notin> set (map item_id (orderItems db'))) \<and>
            (\<forall>k. k \<noteq> oid \<longrightarrow> items_of db' k = items_of db k) \<and>
            order r = old\<lparr>status := (case upd_status u of None \<Rightarrow> status old | Some s \<Rightarrow> s),
                           order_notes := (case upd_notes u of None \<Rightarrow> order_notes old | Some n \<Rightarrow> Some n),
                           totalAmount := items_total its\<rparr> \<and>
            totalAmount (order r) = sum_totalPrice (items r) \<and>
            (\<forall>x \<in> set (orders db'). order_id x = oid \<longrightarrow> x = order r)) \<or>
         (find (\<lambda>x. order_id x = oid) (orders db) = None \<and>
            updateOrder db oid u = (db, Inl (Error ''Order not found'')))"
proof (cases "find (\<lambda>x. order_id x = oid) (orders db)")
  case None
  then show ?thesis by (simp add: updateOrder_absent)
next
  case (Some old)
  note id = find_by_id[OF Some]
  let ?ord = "merge_update old (upd_status u) (upd_notes u) (Some (items_total its))"
  let ?new = "create_items oid (nextId db) (map with_totalPrice its)"
  let ?db = "db\<lparr>orders := map (\<lambda>x. if order_id x = oid then ?ord else x) (orders db),
                   orderItems := filter (\<lambda>i. orderId i \<noteq> oid) (orderItems db) @ ?new,
                   nextId := nextId db + length its\<rparr>"
  let ?r = "order_include ?db ?ord"
  have run: "updateOrder db oid u = (?db, Inr ?r)"
    unfolding updateOrder_items[OF Some assms(3)] Let_def by simp
  note res = updateOrder_result[OF assms(3) run]
  have its: "items_of ?db k = (if k = oid then ?new else items_of db k)" for k
    by (rule items_of_after_replace)
  have 1: "items_of ?db oid = items ?r"
    using id by simp
  have 2: "\<forall>i \<in> set (items_of db oid). item_id i \<notin> set (map item_id (orderItems ?db))"
    using old_ids_gone[OF assms(1,2)] by simp
  have 3: "\<forall>k. k \<noteq> oid \<longrightarrow> items_of ?db k = items_of db k"
    by (simp add: its)
  have 4: "order ?r = old\<lparr>status := (case upd_status u of None \<Rightarrow> status old | Some s \<Rightarrow> s),
                           order_notes := (case upd_notes u of None \<Rightarrow> order_notes old | Some n \<Rightarrow> Some n),
                           totalAmount := items_total its\<rparr>"
    by (simp add: merge_update_def)
  have 5: "\<forall>x \<in> set (orders ?db). order_id x = oid \<longrightarrow> x = order ?r"
    by auto
  show ?thesis
    using Some run 1 res(2) 2 3 4 res(3) 5 by blast
qed

section \<open>Updating an order without items\<close>

text \<open>
  C4. An \<open>updateOrder\<close> whose input has no item list leaves the item table, and with it
  the order's items, unchanged, and leaves \<open>totalAmount\<close> unchanged. The stored order
  differs from the prior one in \<open>status\<close> and \<open>notes\<close> only, and only where the input
  supplies them; every other order is unchanged. When the order does not exist nothing
  changes at all.
\<close>

theorem update_without_items_frame:
  fixes db :: "('n::{zero,plus,times}) database"
  assumes "upd_items u = None"
  shows "(\<exists>old db' r.
            find (\<lambda>x. order_id x = oid) (orders db) = Some old \<and>
            updateOrder db oid u = (db', Inr r) \<and>
            orderItems db' = orderItems db \<and> customers db' = customers db \<and>
            nextId db' = nextId db \<and>
            items r = items_of db oid \<and> totalAmount (order r) = totalAmount old \<and>
            order r = old\<lparr>status := (case upd_status u of None \<Rightarrow> status old | Some s \<Rightarrow> s),
                           order_notes := (case upd_notes u of None \<Rightarrow> order_notes old | Some n \<Rightarrow> Some n)\<rparr> \<and>
            orders db' = map (\<lambda>x. if order_id x = oid then order r else x) (orders db)) \<or>
         (find (\<lambda>x. order_id x = oid) (orders db) = None \<and>
            updateOrder db oid u = (db, Inl (Error ''Order not found'')))"
proof (cases "find (\<lambda>x. order_id x = oid) (orders db)")
  case None
  then show ?thesis by (simp add: updateOrder_absent)
next
  case (Some old)
  note id = find_by_id[OF Some]
  let ?ord = "merge_update old (upd_status u) (upd_notes u) None"
  let ?db = "db\<lparr>orders := map (\<lambda>x. if order_id x = oid then ?ord else x) (orders db)\<rparr>"
  let ?r = "order_include ?db ?ord"
  have run: "updateOrder db oid u = (?db, Inr ?r)"
    unfolding updateOrder_no_items[OF Some assms] Let_def by simp
  have 1: "items ?r = items_of db oid"
    using id by (simp add: items_of_def)
  have 2: "order ?r = old\<lparr>status := (case upd_status u of None \<Rightarrow> status old | Some s \<Rightarrow> s),
                           order_notes := (case upd_notes u of None \<Rightarrow> order_notes old | Some n \<Rightarrow> Some n)\<rparr>"
    by (simp add: merge_update_def)
  have 3: "totalAmount (order ?r) = totalAmount old"
    by (simp add: merge_update_def)
  have 4: "orders ?db = map (\<lambda>x. if order_id x = oid then order ?r else x) (orders db)"
    by simp
  have 5: "orderItems ?db = orderItems db" "customers ?db = customers db" "nextId ?db = nextId db"
    by simp_all
  show ?thesis
    using Some run 1 2 3 4 5 by blast
qed

theorem update_without_items_frame_witness:
  "upd_items update2 = None \<and>
   (\<exists>db' r. updateOrder db1 2 update2 = (db', Inr r) \<and>
      orderItems db' = orderItems db1 \<and> items r = items_of db1 2 \<and>
      totalAmount (order r) = 6 \<and> status (order r) = SHIPPED \<and> order_notes (order r) = None) \<and>
   updateOrder db1 7 update2 = (db1, Inl (Error ''Order not found''))"
proof -
  have u: "upd_items update2 = None"
    by (simp add: update2_def)
  have f: "find (\<lambda>x. order_id x = 2) (orders db1) =
      Some \<lparr>order_id = 2, orderNumber = ''ORD-2026-000001'', status = CONFIRMED,
            totalAmount = 6, order_notes = None, customerId = 1\<rparr>"
    by (simp add: db1_def)
  note hit = update_without_items_frame[OF u, of 2 db1]
  note miss = update_without_items_frame[OF u, of 7 db1]
  from hit f obtain db' r where r:
    "updateOrder db1 2 update2 = (db', Inr r)" "orderItems db' = orderItems db1"
    "items r = items_of db1 2" "totalAmount (order r) = 6"
    "status (order r) = SHIPPED" "order_notes (order r) = None"
    by (auto simp: update2_def)
  from miss db1_find(2) have none: "updateOrder db1 7 update2 = (db1, Inl (Error ''Order not found''))"
    by auto
  from u r none show ?thesis
    by blast
qed

section \<open>Order numbers\<close>

lemma digit_cases:
  "d < 10 \<Longrightarrow> d = 0 \<or> d = 1 \<or> d = 2 \<or> d = 3 \<or> d = 4 \<or> d = 5 \<or> d = 6 \<or> d = 7 \<or> d = 8 \<or> d = (9::nat)"
  by arith

lemma is_digit_digit_char: "d < 10 \<Longrightarrow> is_digit (digit_char d)"
  by (drule digit_cases) (auto simp: is_digit_def digit_char_def)

lemma digit_val_digit_char: "d < 10 \<Longrightarrow> digit_val (digit_char d) = d"
  by (drule digit_cases) (auto simp: digit_val_def digit_char_def)

lemma nat_of_digits_snoc: "nat_of_digits (s @ [c]) = 10 * nat_of_digits s + digit_val c"
  by (simp add: nat_of_digits_def)

lemma String_nat_digits: "list_all is_digit (String_nat n)"
proof (induction n rule: String_nat.induct)
  case (1 n)
  show ?case
  proof (cases "n < 10")
    case True
    then show ?thesis by (simp add: String_nat.simps[of n] is_digit_digit_char)
  next
    case False
    then show ?thesis using 1 by (simp add: String_nat.simps[of n] is_digit_digit_char)
  qed
qed

lemma String_nat_value: "nat_of_digits (String_nat n) = n"
proof (induction n rule: String_nat.induct)
  case (1 n)
  show ?case
  proof (cases "n < 10")
    case True
    then show ?thesis by (simp add: String_nat.simps[of n] nat_of_digits_def digit_val_digit_char)
  next
    case False
    then show ?thesis using 1
      by (simp add: String_nat.simps[of n] nat_of_digits_snoc digit_val_digit_char)
  qed
qed

lemma String_nat_nonempty: "0 < length (String_nat n)"
  by (subst String_nat.simps) simp

lemma String_nat_length: "0 < k \<Longrightarrow> length (String_nat n) \<le> k \<longleftrightarrow> n < 10 ^ k"
proof (induction n arbitrary: k rule: String_nat.induct)
  case (1 n)
  show ?case
  proof (cases "n < 10")
    case True
    have "(10::nat) ^ 1 \<le> 10 ^ k" using 1(2) by (intro power_increasing) simp_all
    then have "n < 10 ^ k" using True by simp
    then show ?thesis using True 1(2) by (simp add: String_nat.simps[of n] Suc_le_eq)
  next
    case False
    show ?thesis
    proof (cases "k = 1")
      case True
      then show ?thesis using False String_nat_nonempty[of "n div 10"]
        by (simp add: String_nat.simps[of n])
    next
      case k: False
      then obtain j where j: "k = Suc j" "0 < j" using 1(2) by (cases k) auto
      have "length (String_nat (n div 10)) \<le> j \<longleftrightarrow> n div 10 < 10 ^ j"
        using 1(1)[OF False j(2)] .
      moreover have "n div 10 < 10 ^ j \<longleftrightarrow> n < 10 ^ k"
        unfolding j(1) by (simp add: div_less_iff_less_mult mult.commute)
      ultimately show ?thesis using False by (simp add: String_nat.simps[of n] j(1))
    qed
  qed
qed

lemma nat_of_digits_zeros: "nat_of_digits (replicate m (CHR ''0'') @ s) = nat_of_digits s"
proof -
  have "foldl (\<lambda>a c. 10 * a + digit_val c) 0 (replicate m (CHR ''0'')) = 0"
    by (induction m) (simp_all add: digit_val_def)
  then show ?thesis by (simp add: nat_of_digits_def)
qed

lemma padStart_length: "length (padStart w c s) = max w (length s)"
  by (simp add: padStart_def)

lemma padStart_digits: "list_all is_digit s \<Longrightarrow> list_all is_digit (padStart w (CHR ''0'') s)"
proof -
  have "is_digit (CHR ''0'')" by (simp add: is_digit_def)
  then show "list_all is_digit s \<Longrightarrow> list_all is_digit (padStart w (CHR ''0'') s)"
    by (auto simp: padStart_def list_all_iff)
qed

lemma padStart_value: "nat_of_digits (padStart w (CHR ''0'') s) = nat_of_digits s"
  by (simp add: padStart_def nat_of_digits_zeros)

lemma generateOrderNumber_parts:
  "generateOrderNumber year n = ''ORD-'' @ String_nat year @ ''-'' @ sequence_text n"
  by (simp add: generateOrderNumber_def sequence_text_def)

lemma year_text_length: "length (String_nat year) = 4 \<longleftrightarrow> 1000 \<le> year \<and> year < 10000"
  using String_nat_length[of 4 year] String_nat_length[of 3 year] by auto

lemma sequence_text_props:
  "list_all is_digit (sequence_text n)"
  "nat_of_digits (sequence_text n) = n + 1"
  "6 \<le> length (sequence_text n)"
  "length (sequence_text n) = 6 \<longleftrightarrow> n + 1 < 1000000"
proof -
  show "list_all is_digit (sequence_text n)"
    unfolding sequence_text_def by (intro padStart_digits String_nat_digits)
  show "nat_of_digits (sequence_text n) = n + 1"
    by (simp add: sequence_text_def padStart_value String_nat_value)
  show "6 \<le> length (sequence_text n)"
    by (simp add: sequence_text_def padStart_length)
  show "length (sequence_text n) = 6 \<longleftrightarrow> n + 1 < 1000000"
    using String_nat_length[of 6 "n + 1"] by (auto simp: sequence_text_def padStart_length)
qed

lemma claimed_formatI:
  assumes "length y = 4" "length q = 6" "list_all is_digit y" "list_all is_digit q"
  shows "claimed_format (''ORD-'' @ y @ ''-'' @ q) (nat_of_digits y) (nat_of_digits q)"
  using assms by (simp add: claimed_format_def)

lemma createOrder_number:
  fixes db :: "('n::{zero,plus,times}) database"
  assumes "createOrder uniq year db d = (db', Inr r)"
  shows "orderNumber (order r) = generateOrderNumber year (length (orders db))"
  by (simp add: createOrder_Inr(2)[OF assms] new_order_def)

text \<open>
  C2 (as amended). For every order creation that returns an order, the order number is
  \<open>ORD-\<close>, the decimal digits of the current year, a dash, and the decimal digits of the
  count of existing orders plus one, padded on the left with zeros to at least six characters
  and never cut. The year part has four digits exactly for the years 1000 to 9999, and the
  sequence part has six digits exactly while the count plus one is below 1000000; under both
  conditions the number has the format \<open>ORD-<4-digit year>-<6-digit sequence>\<close>.
\<close>

theorem order_number_shape:
  fixes db :: "('n::{zero,plus,times}) database"
  assumes "createOrder uniq year db d = (db', Inr r)"
  shows "orderNumber (order r) =
           ''ORD-'' @ String_nat year @ ''-'' @ sequence_text (length (orders db)) \<and>
         list_all is_digit (String_nat year) \<and> nat_of_digits (String_nat year) = year \<and>
         (length (String_nat year) = 4 \<longleftrightarrow> 1000 \<le> year \<and> year < 10000) \<and>
         list_all is_digit (sequence_text (length (orders db))) \<and>
         nat_of_digits (sequence_text (length (orders db))) = length (orders db) + 1 \<and>
         6 \<le> length (sequence_text (length (orders db))) \<and>
         (length (sequence_text (length (orders db))) = 6 \<longleftrightarrow> length (orders db) + 1 < 1000000) \<and>
         (1000 \<le> year \<and> year < 10000 \<and> length (orders db) + 1 < 1000000 \<longrightarrow>
            claimed_format (orderNumber (order r)) year (length (orders db) + 1))"
proof -
  let ?y = "String_nat year" and ?q = "sequence_text (length (orders db))"
  have num: "orderNumber (order r) = ''ORD-'' @ ?y @ ''-'' @ ?q"
    unfolding createOrder_number[OF assms] by (rule generateOrderNumber_parts)
  have fmt: "claimed_format (orderNumber (order r)) year (length (orders db) + 1)"
    if "1000 \<le> year \<and> year < 10000 \<and> length (orders db) + 1 < 1000000"
  proof -
    have "length ?y = 4" "length ?q = 6"
      using that by (simp_all add: year_text_length sequence_text_props(4))
    from claimed_formatI[OF this String_nat_digits sequence_text_props(1)]
    show ?thesis by (simp add: num String_nat_value sequence_text_props(2))
  qed
  show ?thesis
    using num fmt String_nat_digits[of year] String_nat_value[of year] year_text_length[of year]
      sequence_text_props[of "length (orders db)"]
    by blast
qed

lemma db1_create_ok: "\<not> isl (snd (createOrder True 2026 db1 create1))"
  by code_simp

lemma number_2026_1: "''ORD-'' @ String_nat 2026 @ ''-'' @ sequence_text 1 = ''ORD-2026-000002''"
  by code_simp

theorem order_number_shape_witness:
  "\<exists>db' r. createOrder True 2026 db1 create1 = (db', Inr r) \<and>
     orderNumber (order r) = ''ORD-2026-000002'' \<and>
     claimed_format (orderNumber (order r)) 2026 2"
proof -
  obtain db' r where c: "createOrder True 2026 db1 create1 = (db', Inr r)"
    using db1_create_ok
    by (cases "createOrder True 2026 db1 create1"; cases "snd (createOrder True 2026 db1 create1)") auto
  have len: "length (orders db1) = 1"
    by (simp add: db1_def)
  note inst = order_number_shape[OF c, unfolded len]
  from inst have n: "orderNumber (order r) = ''ORD-'' @ String_nat 2026 @ ''-'' @ sequence_text 1"
    by (rule conjunct1)
  have b: "1000 \<le> (2026::nat) \<and> (2026::nat) < 10000 \<and> (1::nat) + 1 < 1000000"
    by simp
  from inst b have "claimed_format (orderNumber (order r)) 2026 (1 + 1)"
    by blast
  then have "claimed_format (orderNumber (order r)) 2026 2"
    by (simp only: one_add_one)
  with c n number_2026_1 show ?thesis by auto
qed

lemma number_2026_999999: "generateOrderNumber 2026 999999 = ''ORD-2026-1000000''"
  by (simp add: generateOrderNumber_def padStart_def String_nat.simps digit_char_def)

lemma year_2025: "String_nat 2025 = ''2025''"
  by (simp add: String_nat.simps digit_char_def)

lemma db_big_length: "length (orders db_big) = 999999"
  by (simp add: db_big_def)

lemma db_big_fresh: "''ORD-2026-1000000'' \<notin> set (map orderNumber (orders db_big))"
  by (simp add: db_big_def old_order_def generateOrderNumber_def year_2025 image_iff comp_def
        del: upt.simps)

text \<open>
  C2 as stated fails: in a store that already holds 999999 orders, the order created next
  is numbered \<open>ORD-2026-1000000\<close>, whose sequence part has seven digits.
\<close>

theorem order_number_seven_digits:
  "created_number (createOrder True 2026 db_big create_big) = Some ''ORD-2026-1000000'' \<and>
   length (orders db_big) = 999999 \<and>
   \<not> claimed_format ''ORD-2026-1000000'' 2026 1000000"
proof -
  have cust: "find (\<lambda>c. customer_id c = in_customerId create_big) (customers db_big) \<noteq> None"
    by (simp add: db_big_def create_big_def)
  have "created_number (createOrder True 2026 db_big create_big) = Some ''ORD-2026-1000000''"
    using cust db_big_fresh
    by (auto simp: createOrder_def prisma_order_create_def created_number_def Let_def
          db_big_length number_2026_999999 order_include_def)
  moreover have "\<not> claimed_format ''ORD-2026-1000000'' 2026 1000000"
    by (simp add: claimed_format_def)
  ultimately show ?thesis using db_big_length by simp
qed

text \<open>
  The sequence part counts the stored orders, so a deletion lowers it. After three
  creations and the deletion of the first order, the next creation generates
  \<open>ORD-2026-000003\<close> again, the number of an order still stored: without a uniqueness
  constraint the number is stored twice, with one the creation is refused.
\<close>

lemma createOrder_step:
  fixes db :: "('n::{zero,plus,times}) database"
  assumes "find (\<lambda>c. customer_id c = in_customerId d) (customers db) \<noteq> None"
    and "\<not> uniq \<or> generateOrderNumber year (length (orders db)) \<notin> set (map orderNumber (orders db))"
  shows "order_keys (fst (createOrder uniq year db d)) =
           order_keys db @ [(nextId db, generateOrderNumber year (length (orders db)))]"
    and "customers (fst (createOrder uniq year db d)) = customers db"
    and "nextId (fst (createOrder uniq year db d)) = Suc (nextId db) + length (in_items d)"
    and "created_number (createOrder uniq year db d) = Some (generateOrderNumber year (length (orders db)))"
  using assms
  by (auto simp: createOrder_def prisma_order_create_def Let_def order_keys_def created_number_def
        order_include_def)

lemma createOrder_collision:
  fixes db :: "('n::{zero,plus,times}) database"
  assumes "find (\<lambda>c. customer_id c = in_customerId d) (customers db) \<noteq> None"
    and "generateOrderNumber year (length (orders db)) \<in> set (map orderNumber (orders db))"
  shows "createOrder True year db d = (db, Inl (PrismaClientKnownRequestError ''P2002''))"
  using assms by (auto simp: createOrder_def prisma_order_create_def Let_def)

lemma deleteOrder_step:
  fixes db :: "'n database"
  shows "order_keys (fst (deleteOrder db oid)) = filter (\<lambda>k. fst k \<noteq> oid) (order_keys db)"
    and "customers (fst (deleteOrder db oid)) = customers db"
proof -
  show "customers (fst (deleteOrder db oid)) = customers db"
    by (simp add: deleteOrder_def prisma_order_delete_def catch_not_found_def split: option.splits)
  show "order_keys (fst (deleteOrder db oid)) = filter (\<lambda>k. fst k \<noteq> oid) (order_keys db)"
  proof (cases "find (\<lambda>x. order_id x = oid) (orders db)")
    case None
    then have "\<forall>x \<in> set (orders db). order_id x \<noteq> oid"
      by (simp add: find_None_iff)
    then have "filter (\<lambda>k. fst k \<noteq> oid) (order_keys db) = order_keys db"
      by (simp add: order_keys_def filter_map comp_def)
    then show ?thesis using None
      by (simp add: deleteOrder_def prisma_order_delete_def catch_not_found_def)
  next
    case (Some old)
    then show ?thesis
      by (simp add: deleteOrder_def prisma_order_delete_def catch_not_found_def order_keys_def
            filter_map comp_def)
  qed
qed

lemma order_keys_simps:
  "length (orders db) = length (order_keys db)"
  "map orderNumber (orders db) = map snd (order_keys db)"
  by (simp_all add: order_keys_def comp_def)

lemma generated_numbers:
  "generateOrderNumber 2026 0 = ''ORD-2026-000001''"
  "generateOrderNumber 2026 (Suc 0) = ''ORD-2026-000002''"
  "generateOrderNumber 2026 (Suc (Suc 0)) = ''ORD-2026-000003''"
  by code_simp+

lemma after_creates_state:
  "order_keys (after_creates uniq 3) =
     [(2, ''ORD-2026-000001''), (5, ''ORD-2026-000002''), (8, ''ORD-2026-000003'')]"
  "customers (after_creates uniq 3) = customers db0"
proof -
  let ?s1 = "fst (createOrder uniq 2026 db0 create1)"
  let ?s2 = "fst (createOrder uniq 2026 ?s1 create1)"
  let ?s3 = "fst (createOrder uniq 2026 ?s2 create1)"
  have cust: "find (\<lambda>c. customer_id c = in_customerId create1) (customers db0) \<noteq> None"
    by (simp add: db0_def create1_def)
  have len: "length (in_items create1) = 2"
    by (simp add: create1_def new_items_def)
  have k0: "order_keys db0 = []" and n0: "nextId db0 = 2"
    by (simp_all add: order_keys_def db0_def)
  have u0: "\<not> uniq \<or> generateOrderNumber 2026 (length (orders db0)) \<notin> set (map orderNumber (orders db0))"
    by (simp add: order_keys_simps k0)
  note step1 = createOrder_step(1,2,3)[OF cust u0]
  have k1: "order_keys ?s1 = [(2, ''ORD-2026-000001'')]" and c1: "customers ?s1 = customers db0"
    and n1: "nextId ?s1 = 5"
    using step1 by (simp_all add: order_keys_simps k0 n0 len generated_numbers)
  have cust1: "find (\<lambda>c. customer_id c = in_customerId create1) (customers ?s1) \<noteq> None"
    unfolding c1 by (rule cust)
  have u1: "\<not> uniq \<or> generateOrderNumber 2026 (length (orders ?s1)) \<notin> set (map orderNumber (orders ?s1))"
    by (simp add: order_keys_simps k1 generated_numbers)
  note step2 = createOrder_step(1,2,3)[OF cust1 u1]
  have k2: "order_keys ?s2 = [(2, ''ORD-2026-000001''), (5, ''ORD-2026-000002'')]"
    and c2: "customers ?s2 = customers db0" and n2: "nextId ?s2 = 8"
    using step2 by (simp_all add: order_keys_simps k1 n1 c1 len generated_numbers)
  have cust2: "find (\<lambda>c. customer_id c = in_customerId create1) (customers ?s2) \<noteq> None"
    unfolding c2 by (rule cust)
  have u2: "\<not> uniq \<or> generateOrderNumber 2026 (length (orders ?s2)) \<notin> set (map orderNumber (orders ?s2))"
    by (simp add: order_keys_simps k2 generated_numbers)
  note step3 = createOrder_step(1,2,3)[OF cust2 u2]
  have k3: "order_keys ?s3 = [(2, ''ORD-2026-000001''), (5, ''ORD-2026-000002''), (8, ''ORD-2026-000003'')]"
    and c3: "customers ?s3 = customers db0"
    using step3 by (simp_all add: order_keys_simps k2 n2 c2 len generated_numbers)
  have s3: "after_creates uniq 3 = ?s3"
    by (simp add: numeral_3_eq_3)
  show "order_keys (after_creates uniq 3) =
     [(2, ''ORD-2026-000001''), (5, ''ORD-2026-000002''), (8, ''ORD-2026-000003'')]"
    unfolding s3 by (rule k3)
  show "customers (after_creates uniq 3) = customers db0"
    unfolding s3 by (rule c3)
qed

lemma order_number_reused_after_delete:
  "order_keys (three_then_delete uniq) = [(5, ''ORD-2026-000002''), (8, ''ORD-2026-000003'')]"
  "created_number (createOrder False 2026 (three_then_delete False) create1) = Some ''ORD-2026-000003''"
  "createOrder True 2026 (three_then_delete True) create1 =
     (three_then_delete True, Inl (PrismaClientKnownRequestError ''P2002''))"
proof -
  have cust: "find (\<lambda>c. customer_id c = in_customerId create1) (customers (three_then_delete u)) \<noteq> None" for u
    by (simp add: three_then_delete_def deleteOrder_step after_creates_state db0_def create1_def)
  show keys: "order_keys (three_then_delete uniq) = [(5, ''ORD-2026-000002''), (8, ''ORD-2026-000003'')]" for uniq
    by (simp add: three_then_delete_def deleteOrder_step after_creates_state)
  have "created_number (createOrder False 2026 (three_then_delete False) create1) =
      Some (generateOrderNumber 2026 (length (orders (three_then_delete False))))"
    by (rule createOrder_step(4)[OF cust]) simp
  then show "created_number (createOrder False 2026 (three_then_delete False) create1) = Some ''ORD-2026-000003''"
    by (simp add: order_keys_simps keys generated_numbers)
  show "createOrder True 2026 (three_then_delete True) create1 =
     (three_then_delete True, Inl (PrismaClientKnownRequestError ''P2002''))"
    using cust by (intro createOrder_collision) (simp_all add: order_keys_simps keys generated_numbers)
qed

section \<open>The authentication gate\<close>

lemma split_on_nonempty: "split_on sep s \<noteq> []"
  by (induction s) (auto split: list.splits)

lemma split_on_no_sep: "sep \<notin> set s \<Longrightarrow> split_on sep s = [s]"
  by (induction s) auto

lemma split_on_hd: "hd (split_on sep s) = takeWhile (\<lambda>c. c \<noteq> sep) s"
  by (induction s) (auto split: list.splits simp: split_on_nonempty)

lemma split_on_append: "sep \<notin> set s \<Longrightarrow> split_on sep (s @ sep # r) = s # split_on sep r"
  by (induction s) auto

lemma token_of_header_field:
  assumes "CHR '' '' \<notin> set s"
  shows "token_of_header (Some (s @ CHR '' '' # r)) = Some (takeWhile (\<lambda>c. c \<noteq> CHR '' '') r)"
proof -
  obtain w ws where w: "split_on (CHR '' '') r = w # ws"
    using split_on_nonempty[of "CHR '' ''" r] by (cases "split_on (CHR '' '') r") auto
  then have "w = takeWhile (\<lambda>c. c \<noteq> CHR '' '') r"
    using split_on_hd[of "CHR '' ''" r] by simp
  then show ?thesis
    by (simp add: token_of_header_def split_on_append[OF assms] w array_index_def)
qed

lemma token_of_header_no_space:
  assumes "CHR '' '' \<notin> set h" "h \<noteq> []"
  shows "token_of_header (Some h) = None"
  using assms by (simp add: token_of_header_def split_on_no_sep array_index_def)

lemma bearer_no_space: "CHR '' '' \<notin> set ''Bearer''"
  by simp

lemma token_of_bearer:
  assumes "CHR '' '' \<notin> set t"
  shows "token_of_header (Some (''Bearer '' @ t)) = Some t"
proof -
  have "token_of_header (Some (''Bearer'' @ CHR '' '' # t)) = Some (takeWhile (\<lambda>c. c \<noteq> CHR '' '') t)"
    by (rule token_of_header_field[OF bearer_no_space])
  moreover have "takeWhile (\<lambda>c. c \<noteq> CHR '' '') t = t"
    using assms by (intro takeWhile_eq_all_conv[THEN iffD2]) auto
  ultimately show ?thesis by simp
qed

text \<open>
  C5. A request whose header yields no token (in particular one without an
  \<open>Authorization\<close> header) is answered 401 with the message \<open>Access token required\<close>. A
  request with a token that the verifier rejects is answered 401 with the message
  \<open>Invalid or expired token\<close>, whatever the verifier threw. A request with a token that the
  verifier accepts goes on to the handler with the decoded identity attached. A header
  \<open>Bearer t\<close> yields the token \<open>t\<close>.
\<close>

theorem auth_gate_outcomes:
  "(token_of_header (authorization req) = None \<or> token_of_header (authorization req) = Some [] \<longrightarrow>
      authenticateToken v req =
        Respond \<lparr>statusCode = 401, success = False, message = ''Access token required'',
                 data = None, error = None\<rparr>) \<and>
   (\<forall>t e. token_of_header (authorization req) = Some t \<and> t \<noteq> [] \<and> v t = Inl e \<longrightarrow>
      authenticateToken v req =
        Respond \<lparr>statusCode = 401, success = False, message = ''Invalid or expired token'',
                 data = None, error = None\<rparr>) \<and>
   (\<forall>t p. token_of_header (authorization req) = Some t \<and> t \<noteq> [] \<and> v t = Inr p \<longrightarrow>
      authenticateToken v req = Next (req\<lparr>user := Some p\<rparr>)) \<and>
   (authorization req = None \<longrightarrow> token_of_header (authorization req) = None) \<and>
   (\<forall>t. authorization req = Some (''Bearer '' @ t) \<and> CHR '' '' \<notin> set t \<longrightarrow>
      token_of_header (authorization req) = Some t)"
proof (intro conjI allI impI)
  assume "token_of_header (authorization req) = None \<or> token_of_header (authorization req) = Some []"
  then show "authenticateToken v req =
        Respond \<lparr>statusCode = 401, success = False, message = ''Access token required'',
                 data = None, error = None\<rparr>"
    by (auto simp: authenticateToken_def unauthorized_def ApiResponseUtil_error_def)
next
  fix t e assume "token_of_header (authorization req) = Some t \<and> t \<noteq> [] \<and> v t = Inl e"
  then show "authenticateToken v req =
        Respond \<lparr>statusCode = 401, success = False, message = ''Invalid or expired token'',
                 data = None, error = None\<rparr>"
    by (simp add: authenticateToken_def unauthorized_def ApiResponseUtil_error_def)
next
  fix t p assume "token_of_header (authorization req) = Some t \<and> t \<noteq> [] \<and> v t = Inr p"
  then show "authenticateToken v req = Next (req\<lparr>user := Some p\<rparr>)"
    by (simp add: authenticateToken_def)
next
  assume "authorization req = None"
  then show "token_of_header (authorization req) = None"
    by (simp add: token_of_header_def)
next
  fix t assume "authorization req = Some (''Bearer '' @ t) \<and> CHR '' '' \<notin> set t"
  then show "token_of_header (authorization req) = Some t"
    using token_of_bearer[of t] by simp
qed

theorem auth_gate_outcomes_witness:
  "authenticateToken (only_accepts ''good'' alice) \<lparr>authorization = None, user = None\<rparr> =
     (Respond \<lparr>statusCode = 401, success = False, message = ''Access token required'',
               data = None, error = None\<rparr> :: unit outcome) \<and>
   authenticateToken (only_accepts ''good'' alice) \<lparr>authorization = Some ''Bearer bad'', user = None\<rparr> =
     (Respond \<lparr>statusCode = 401, success = False, message = ''Invalid or expired token'',
               data = None, error = None\<rparr> :: unit outcome) \<and>
   authenticateToken (only_accepts ''good'' alice) \<lparr>authorization = Some ''Bearer good'', user = None\<rparr> =
     (Next \<lparr>authorization = Some ''Bearer good'', user = Some alice\<rparr> :: unit outcome)"
proof -
  let ?v = "only_accepts ''good'' alice"
  let ?none = "\<lparr>authorization = None, user = None\<rparr>"
  let ?bad = "\<lparr>authorization = Some ''Bearer bad'', user = None\<rparr>"
  let ?good = "\<lparr>authorization = Some ''Bearer good'', user = None\<rparr>"
  have "authorization ?none = None"
    by simp
  with auth_gate_outcomes[of ?none ?v, where 'a = unit]
  have t0: "token_of_header (authorization ?none) = None"
    by blast
  have "authorization ?bad = Some (''Bearer '' @ ''bad'') \<and> CHR '' '' \<notin> set ''bad''"
    by simp
  with auth_gate_outcomes[of ?bad ?v, where 'a = unit]
  have t1: "token_of_header (authorization ?bad) = Some ''bad'' \<and> ''bad'' \<noteq> []"
    by blast
  have "authorization ?good = Some (''Bearer '' @ ''good'') \<and> CHR '' '' \<notin> set ''good''"
    by simp
  with auth_gate_outcomes[of ?good ?v, where 'a = unit]
  have t2: "token_of_header (authorization ?good) = Some ''good'' \<and> ''good'' \<noteq> []"
    by blast
  have v1: "?v ''bad'' = Inl (Error ''invalid signature'')" and v2: "?v ''good'' = Inr alice"
    by (simp_all add: only_accepts_def)
  have "authenticateToken ?v ?none =
     (Respond \<lparr>statusCode = 401, success = False, message = ''Access token required'',
               data = None, error = None\<rparr> :: unit outcome)"
    using auth_gate_outcomes[of ?none ?v, where 'a = unit] t0 by blast
  moreover have "authenticateToken ?v ?bad =
     (Respond \<lparr>statusCode = 401, success = False, message = ''Invalid or expired token'',
               data = None, error = None\<rparr> :: unit outcome)"
    using auth_gate_outcomes[of ?bad ?v, where 'a = unit] t1 v1 by blast
  moreover have "authenticateToken ?v ?good = (Next (?good\<lparr>user := Some alice\<rparr>) :: unit outcome)"
    using auth_gate_outcomes[of ?good ?v, where 'a = unit] t2 v2 by blast
  ultimately show ?thesis by simp
qed

text \<open>
  C10 (as amended). The gate takes as the token the second space-separated field of the
  header, that is, what stands between the first space and the second (or the end), and
  does not look at the scheme. A header \<open>s t\<close> whose two parts are free of spaces, \<open>t\<close>
  not empty, has \<open>t\<close> verified, whatever \<open>s\<close> is. A header without a space, and a header
  whose second field is empty, are answered \<open>Access token required\<close>.
\<close>

theorem auth_gate_token_field:
  "(\<forall>s r. CHR '' '' \<notin> set s \<longrightarrow>
      token_of_header (Some (s @ '' '' @ r)) = Some (takeWhile (\<lambda>c. c \<noteq> CHR '' '') r)) \<and>
   (\<forall>s t. CHR '' '' \<notin> set s \<and> CHR '' '' \<notin> set t \<and> t \<noteq> [] \<and>
          authorization req = Some (s @ '' '' @ t) \<longrightarrow>
      authenticateToken v req =
        (case v t of Inr p \<Rightarrow> Next (req\<lparr>user := Some p\<rparr>)
                   | Inl e \<Rightarrow> Respond (unauthorized ''Invalid or expired token''))) \<and>
   (\<forall>h. CHR '' '' \<notin> set h \<and> authorization req = Some h \<longrightarrow>
      authenticateToken v req = Respond (unauthorized ''Access token required'')) \<and>
   (\<forall>s r. CHR '' '' \<notin> set s \<and> authorization req = Some (s @ '' '' @ r) \<and>
          (r = [] \<or> hd r = CHR '' '') \<longrightarrow>
      authenticateToken v req = Respond (unauthorized ''Access token required''))"
proof (intro conjI allI impI)
  fix s r assume "CHR '' '' \<notin> set s"
  then show "token_of_header (Some (s @ '' '' @ r)) = Some (takeWhile (\<lambda>c. c \<noteq> CHR '' '') r)"
    using token_of_header_field[of s r] by simp
next
  fix s t
  assume a: "CHR '' '' \<notin> set s \<and> CHR '' '' \<notin> set t \<and> t \<noteq> [] \<and> authorization req = Some (s @ '' '' @ t)"
  then have "takeWhile (\<lambda>c. c \<noteq> CHR '' '') t = t"
    by (intro takeWhile_eq_all_conv[THEN iffD2]) auto
  then have "token_of_header (authorization req) = Some t"
    using a token_of_header_field[of s t] by simp
  then show "authenticateToken v req =
        (case v t of Inr p \<Rightarrow> Next (req\<lparr>user := Some p\<rparr>)
                   | Inl e \<Rightarrow> Respond (unauthorized ''Invalid or expired token''))"
    using a by (simp add: authenticateToken_def split: sum.splits)
next
  fix h assume a: "CHR '' '' \<notin> set h \<and> authorization req = Some h"
  show "authenticateToken v req = Respond (unauthorized ''Access token required'')"
  proof (cases "h = []")
    case True
    then show ?thesis using a by (simp add: authenticateToken_def token_of_header_def)
  next
    case False
    then show ?thesis using a token_of_header_no_space[of h]
      by (simp add: authenticateToken_def)
  qed
next
  fix s r
  assume a: "CHR '' '' \<notin> set s \<and> authorization req = Some (s @ '' '' @ r) \<and> (r = [] \<or> hd r = CHR '' '')"
  then have "takeWhile (\<lambda>c. c \<noteq> CHR '' '') r = []"
    by (cases r) auto
  then have "token_of_header (authorization req) = Some []"
    using a token_of_header_field[of s r] by simp
  then show "authenticateToken v req = Respond (unauthorized ''Access token required'')"
    by (simp add: authenticateToken_def)
qed

theorem auth_gate_token_field_witness:
  "authenticateToken (only_accepts ''good'' alice) \<lparr>authorization = Some ''Basic good'', user = None\<rparr> =
     (Next \<lparr>authorization = Some ''Basic good'', user = Some alice\<rparr> :: unit outcome) \<and>
   authenticateToken (only_accepts ''good'' alice) \<lparr>authorization = Some ''good'', user = None\<rparr> =
     (Respond (unauthorized ''Access token required'') :: unit outcome) \<and>
   authenticateToken (only_accepts ''good'' alice) \<lparr>authorization = Some ''Bearer  good'', user = None\<rparr> =
     (Respond (unauthorized ''Access token required'') :: unit outcome) \<and>
   token_of_header (Some ''Bearer a b'') = Some ''a''"
proof -
  let ?v = "only_accepts ''good'' alice"
  let ?basic = "\<lparr>authorization = Some ''Basic good'', user = None\<rparr>"
  let ?bare = "\<lparr>authorization = Some ''good'', user = None\<rparr>"
  let ?two = "\<lparr>authorization = Some ''Bearer  good'', user = None\<rparr>"
  have v: "?v ''good'' = Inr alice"
    by (simp add: only_accepts_def)
  have "CHR '' '' \<notin> set ''Basic'' \<and> CHR '' '' \<notin> set ''good'' \<and> ''good'' \<noteq> [] \<and>
      authorization ?basic = Some (''Basic'' @ '' '' @ ''good'')"
    by simp
  with auth_gate_token_field[of ?basic ?v, where 'a = unit]
  have "authenticateToken ?v ?basic =
      (case ?v ''good'' of Inr p \<Rightarrow> Next (?basic\<lparr>user := Some p\<rparr>)
                 | Inl e \<Rightarrow> (Respond (unauthorized ''Invalid or expired token'') :: unit outcome))"
    by blast
  then have 1: "authenticateToken ?v ?basic = (Next \<lparr>authorization = Some ''Basic good'', user = Some alice\<rparr> :: unit outcome)"
    by (simp add: v)
  have "CHR '' '' \<notin> set ''good'' \<and> authorization ?bare = Some ''good''"
    by simp
  with auth_gate_token_field[of ?bare ?v, where 'a = unit]
  have 2: "authenticateToken ?v ?bare = (Respond (unauthorized ''Access token required'') :: unit outcome)"
    by blast
  have "CHR '' '' \<notin> set ''Bearer'' \<and> authorization ?two = Some (''Bearer'' @ '' '' @ '' good'') \<and>
      ('' good'' = [] \<or> hd '' good'' = CHR '' '')"
    by simp
  with auth_gate_token_field[of ?two ?v, where 'a = unit]
  have 3: "authenticateToken ?v ?two = (Respond (unauthorized ''Access token required'') :: unit outcome)"
    by blast
  have "CHR '' '' \<notin> set ''Bearer''"
    by simp
  with auth_gate_token_field[of ?bare ?v, where 'a = unit]
  have "token_of_header (Some (''Bearer'' @ '' '' @ ''a b'')) = Some (takeWhile (\<lambda>c. c \<noteq> CHR '' '') ''a b'')"
    by blast
  then have 4: "token_of_header (Some ''Bearer a b'') = Some ''a''"
    by simp
  from 1 2 3 4 show ?thesis by simp
qed

text \<open>
  C10 as stated fails: in \<open>Bearer good junk\<close> the substring after the first space is
  \<open>good junk\<close>, which the verifier rejects, yet the request is let through, because the
  gate verified \<open>good\<close>.
\<close>

theorem auth_gate_second_space:
  "authenticateToken (only_accepts ''good'' alice)
     \<lparr>authorization = Some ''Bearer good junk'', user = None\<rparr> =
     (Next \<lparr>authorization = Some ''Bearer good junk'', user = Some alice\<rparr> :: unit outcome) \<and>
   after_first_space ''Bearer good junk'' = ''good junk'' \<and>
   only_accepts ''good'' alice (after_first_space ''Bearer good junk'') = Inl (Error ''invalid signature'') \<and>
   token_of_header (Some ''Bearer good junk'') = Some ''good''"
  by (simp add: authenticateToken_def token_of_header_def array_index_def after_first_space_def
        only_accepts_def)

section \<open>Login failures\<close>

text \<open>
  C6. Every failing login fails with the message \<open>Invalid credentials\<close>. A login with an
  unknown email and a login with a wrong password for an existing user fail with the same
  error and get the same response from the handler, so the caller cannot tell the two
  causes apart.
\<close>

theorem login_failures_indistinguishable:
  "(\<forall>e. login cmp gen users c = Inl e \<longrightarrow> e = Error ''Invalid credentials'') \<and>
   (\<forall>c1 c2 u.
      find (\<lambda>x. user_email x = login_email c1) users = None \<and>
      find (\<lambda>x. user_email x = login_email c2) users = Some u \<and>
      \<not> cmp (login_password c2) (password u) \<longrightarrow>
      login cmp gen users c1 = Inl (Error ''Invalid credentials'') \<and>
      login cmp gen users c2 = Inl (Error ''Invalid credentials'') \<and>
      AuthController_login cmp gen users c1 = AuthController_login cmp gen users c2 \<and>
      AuthController_login cmp gen users c1 =
        \<lparr>statusCode = 401, success = False, message = ''Login failed'', data = None,
         error = Some ''Invalid credentials''\<rparr>)"
  by (auto simp: login_def AuthController_login_def ApiResponseUtil_error_def
        split: option.splits if_splits)

theorem login_failures_indistinguishable_witness:
  "login password_is token_for users1
     \<lparr>login_email = ''nobody@example.com'', login_password = ''admin123''\<rparr> =
     Inl (Error ''Invalid credentials'') \<and>
   login password_is token_for users1
     \<lparr>login_email = ''admin@example.com'', login_password = ''wrong-password''\<rparr> =
     Inl (Error ''Invalid credentials'') \<and>
   AuthController_login password_is token_for users1
     \<lparr>login_email = ''nobody@example.com'', login_password = ''admin123''\<rparr> =
   AuthController_login password_is token_for users1
     \<lparr>login_email = ''admin@example.com'', login_password = ''wrong-password''\<rparr>"
proof -
  let ?c1 = "\<lparr>login_email = ''nobody@example.com'', login_password = ''admin123''\<rparr>"
  let ?c2 = "\<lparr>login_email = ''admin@example.com'', login_password = ''wrong-password''\<rparr>"
  let ?u = "\<lparr>user_id = 1, user_email = ''admin@example.com'', password = ''hash:admin123'',
             createdAt = 0\<rparr>"
  have "find (\<lambda>x. user_email x = login_email ?c1) users1 = None \<and>
      find (\<lambda>x. user_email x = login_email ?c2) users1 = Some ?u \<and>
      \<not> password_is (login_password ?c2) (password ?u)"
    by (simp add: users1_def password_is_def)
  with login_failures_indistinguishable[of password_is token_for users1 ?c1]
  show ?thesis by blast
qed

section \<open>Failures of the order service at the handlers\<close>

lemma deleteOrder_absent:
  "find (\<lambda>x. order_id x = oid) (orders db) = None \<Longrightarrow>
     deleteOrder db oid = (db, Inl (Error ''Order not found''))"
  by (simp add: deleteOrder_def prisma_order_delete_def catch_not_found_def)

lemma createOrder_absent:
  "find (\<lambda>c. customer_id c = in_customerId body) (customers db) = None \<Longrightarrow>
     createOrder uniq year db body = (db, Inl (Error ''Customer not found''))"
  by (simp add: createOrder_def)

lemma notFound_Order:
  "notFound ''Order'' =
     \<lparr>statusCode = 404, success = False, message = ''Order not found'', data = None, error = None\<rparr>"
  by (simp add: notFound_def ApiResponseUtil_error_def)

text \<open>
  C9. When the order is absent, the handlers of \<open>getOrderById\<close>, \<open>updateOrder\<close> and
  \<open>deleteOrder\<close> answer 404 \<open>Order not found\<close>, as they do for every failure of their
  service call. When the customer of a new order is absent, the handler of \<open>createOrder\<close>
  answers with the default status 400, the message \<open>Failed to create order\<close> and the
  detail \<open>Customer not found\<close>.
\<close>

theorem not_found_mapping:
  fixes db :: "('n::{zero,plus,times}) database"
  shows
  "(find (\<lambda>x. order_id x = oid) (orders db) = None \<longrightarrow>
      OrderController_getOrderById db oid =
        \<lparr>statusCode = 404, success = False, message = ''Order not found'', data = None, error = None\<rparr> \<and>
      OrderController_updateOrder db oid u =
        (db, \<lparr>statusCode = 404, success = False, message = ''Order not found'', data = None, error = None\<rparr>) \<and>
      OrderController_deleteOrder db oid =
        (db, \<lparr>statusCode = 404, success = False, message = ''Order not found'', data = None, error = None\<rparr>)) \<and>
   (\<forall>e. getOrderById db oid = Inl e \<longrightarrow> statusCode (OrderController_getOrderById db oid) = 404) \<and>
   (\<forall>e. snd (updateOrder db oid u) = Inl e \<longrightarrow> statusCode (snd (OrderController_updateOrder db oid u)) = 404) \<and>
   (\<forall>e. snd (deleteOrder db oid) = Inl e \<longrightarrow> statusCode (snd (OrderController_deleteOrder db oid)) = 404) \<and>
   (find (\<lambda>c. customer_id c = in_customerId body) (customers db) = None \<longrightarrow>
      OrderController_createOrder uniq year db body =
        (db, \<lparr>statusCode = 400, success = False, message = ''Failed to create order'', data = None,
              error = Some ''Customer not found''\<rparr>))"
proof (intro conjI allI impI)
  assume a: "find (\<lambda>x. order_id x = oid) (orders db) = None"
  show "OrderController_getOrderById db oid =
        \<lparr>statusCode = 404, success = False, message = ''Order not found'', data = None, error = None\<rparr>"
    using a by (simp add: OrderController_getOrderById_def getOrderById_def notFound_Order)
  show "OrderController_updateOrder db oid u =
        (db, \<lparr>statusCode = 404, success = False, message = ''Order not found'', data = None, error = None\<rparr>)"
    by (simp add: OrderController_updateOrder_def updateOrder_absent[OF a] notFound_Order)
  show "OrderController_deleteOrder db oid =
        (db, \<lparr>statusCode = 404, success = False, message = ''Order not found'', data = None, error = None\<rparr>)"
    by (simp add: OrderController_deleteOrder_def deleteOrder_absent[OF a] notFound_Order)
next
  fix e assume "getOrderById db oid = Inl e"
  then show "statusCode (OrderController_getOrderById db oid) = 404"
    by (simp add: OrderController_getOrderById_def notFound_Order)
next
  fix e assume "snd (updateOrder db oid u) = Inl e"
  then show "statusCode (snd (OrderController_updateOrder db oid u)) = 404"
    by (cases "updateOrder db oid u") (simp add: OrderController_updateOrder_def notFound_Order)
next
  fix e assume "snd (deleteOrder db oid) = Inl e"
  then show "statusCode (snd (OrderController_deleteOrder db oid)) = 404"
    by (cases "deleteOrder db oid") (simp add: OrderController_deleteOrder_def notFound_Order)
next
  assume "find (\<lambda>c. customer_id c = in_customerId body) (customers db) = None"
  then show "OrderController_createOrder uniq year db body =
        (db, \<lparr>statusCode = 400, success = False, message = ''Failed to create order'', data = None,
              error = Some ''Customer not found''\<rparr>)"
    by (simp add: OrderController_createOrder_def createOrder_absent ApiResponseUtil_error_def)
qed

theorem not_found_mapping_witness:
  "OrderController_getOrderById db1 7 =
     \<lparr>statusCode = 404, success = False, message = ''Order not found'', data = None, error = None\<rparr> \<and>
   OrderController_updateOrder db1 7 update1 =
     (db1, \<lparr>statusCode = 404, success = False, message = ''Order not found'', data = None, error = None\<rparr>) \<and>
   OrderController_deleteOrder db1 7 =
     (db1, \<lparr>statusCode = 404, success = False, message = ''Order not found'', data = None, error = None\<rparr>) \<and>
   OrderController_createOrder True 2026 db1 create_unknown =
     (db1, \<lparr>statusCode = 400, success = False, message = ''Failed to create order'', data = None,
            error = Some ''Customer not found''\<rparr>)"
proof -
  have "find (\<lambda>c. customer_id c = in_customerId create_unknown) (customers db1) = None"
    by (simp add: db1_def create_unknown_def)
  with not_found_mapping[of 7 db1 update1 create_unknown True 2026] db1_find(2)
  show ?thesis by blast
qed

section \<open>Pagination defaults\<close>

lemma js_examples:
  "js ''abc'' = [97, 98, 99]" "js ''-5'' = [45, 53]" "js ''+12abc'' = [43, 49, 50, 97, 98, 99]"
  "js '' 7'' = [32, 55]" "js ''0'' = [48]" "js ''-abc'' = [45, 97, 98, 99]" "js ''+'' = [43]"
  by (simp_all add: js_def)

lemma digit_not_space: "is_digit_unit u \<Longrightarrow> \<not> is_white_space u \<and> u \<noteq> 43 \<and> u \<noteq> 45"
  by (auto simp: is_digit_unit_def is_white_space_def)

lemma sign_not_space: "\<not> is_white_space 43" "\<not> is_white_space 45"
  by (simp_all add: is_white_space_def)

lemma dropWhile_prefix:
  assumes "list_all P ws" "xs = [] \<or> \<not> P (hd xs)"
  shows "dropWhile P (ws @ xs) = xs"
  using assms by (cases xs) (auto simp: list_all_iff dropWhile_append)

lemma takeWhile_prefix:
  assumes "list_all P ds" "xs = [] \<or> \<not> P (hd xs)"
  shows "takeWhile P (ds @ xs) = ds"
  using assms by (cases xs) (auto simp: list_all_iff takeWhile_append)

lemma parseInt10_split:
  assumes "well_split ws sg ds rest"
  shows "parseInt10 (ws @ sg @ ds @ rest) =
           (if ds = [] then NaN else number_of (sg = [45]) (digits_value ds))"
proof -
  from assms have ws: "list_all is_white_space ws" and sg: "sg = [] \<or> sg = [43] \<or> sg = [45]"
    and ds: "list_all is_digit_unit ds" and rest: "rest = [] \<or> \<not> is_digit_unit (hd rest)"
    and bare: "sg = [] \<and> ds = [] \<longrightarrow>
        rest = [] \<or> (\<not> is_white_space (hd rest) \<and> hd rest \<noteq> 43 \<and> hd rest \<noteq> 45)"
    by (simp_all add: well_split_def)
  let ?u = "ds @ rest"
  have z: "takeWhile is_digit_unit ?u = ds"
    by (rule takeWhile_prefix[OF ds rest])
  have plain: "?u = [] \<or> (\<not> is_white_space (hd ?u) \<and> hd ?u \<noteq> 43 \<and> hd ?u \<noteq> 45)" if "sg = []"
  proof (cases ds)
    case Nil
    then show ?thesis using bare that by simp
  next
    case (Cons d ds')
    then have "is_digit_unit d" using ds by simp
    then show ?thesis using Cons digit_not_space[of d] by simp
  qed
  show ?thesis
  proof (cases "sg = []")
    case True
    have t: "dropWhile is_white_space (ws @ ?u) = ?u"
      using plain[OF True] by (intro dropWhile_prefix[OF ws]) blast
    show ?thesis using plain[OF True] True
      by (simp only: parseInt10_def Let_def True append_Nil t) (auto simp: z)
  next
    case False
    have signed: "parseInt10 (ws @ c # ?u) = (if ds = [] then NaN else number_of (c = 45) (digits_value ds))"
      if "c = 43 \<or> c = 45" for c :: nat
    proof -
      have "\<not> is_white_space c" using that sign_not_space by auto
      then have t: "dropWhile is_white_space (ws @ c # ?u) = c # ?u"
        by (intro dropWhile_prefix[OF ws]) simp
      show ?thesis using that
        by (simp add: parseInt10_def Let_def t z)
    qed
    from False sg have "sg = [43] \<or> sg = [45]" by simp
    then show ?thesis
    proof
      assume s: "sg = [43]"
      have "parseInt10 (ws @ 43 # ?u) = (if ds = [] then NaN else number_of False (digits_value ds))"
        using signed[of 43] by simp
      then show ?thesis by (simp add: s)
    next
      assume s: "sg = [45]"
      have "parseInt10 (ws @ 45 # ?u) = (if ds = [] then NaN else number_of True (digits_value ds))"
        using signed[of 45] by simp
      then show ?thesis by (simp add: s)
    qed
  qed
qed

lemma split_exists: "\<exists>ws sg ds rest. v = ws @ sg @ ds @ rest \<and> well_split ws sg ds rest"
proof -
  define ws where "ws = takeWhile is_white_space v"
  define t where "t = dropWhile is_white_space v"
  define signed where "signed \<longleftrightarrow> t \<noteq> [] \<and> (hd t = 43 \<or> hd t = 45)"
  define sg where "sg = (if signed then [hd t] else [])"
  define u where "u = (if signed then tl t else t)"
  define ds where "ds = takeWhile is_digit_unit u"
  define rest where "rest = dropWhile is_digit_unit u"
  have v: "v = ws @ t"
    by (simp add: ws_def t_def)
  have t: "t = sg @ u"
    by (cases signed) (simp_all add: sg_def u_def signed_def)
  have u: "u = ds @ rest"
    by (simp add: ds_def rest_def)
  have 1: "v = ws @ sg @ ds @ rest"
    using v t u by blast
  have a: "list_all is_white_space ws"
    unfolding ws_def list_all_iff by (blast dest: set_takeWhileD)
  have b: "list_all is_digit_unit ds"
    unfolding ds_def list_all_iff by (blast dest: set_takeWhileD)
  have c: "rest = [] \<or> \<not> is_digit_unit (hd rest)"
    unfolding rest_def by (cases "dropWhile is_digit_unit u = []") (simp_all add: hd_dropWhile)
  have d: "t = [] \<or> \<not> is_white_space (hd t)"
    unfolding t_def by (cases "dropWhile is_white_space v = []") (simp_all add: hd_dropWhile)
  have e: "sg = [] \<or> sg = [43] \<or> sg = [45]"
    by (cases signed) (auto simp: sg_def signed_def)
  have f: "rest = [] \<or> (\<not> is_white_space (hd rest) \<and> hd rest \<noteq> 43 \<and> hd rest \<noteq> 45)"
    if "sg = [] \<and> ds = []"
  proof -
    from that have ns: "\<not> signed" by (cases signed) (simp_all add: sg_def)
    then have "u = t" by (simp add: u_def)
    moreover have "rest = u" using u that by simp
    ultimately have r: "rest = t" by simp
    from ns have "t = [] \<or> (hd t \<noteq> 43 \<and> hd t \<noteq> 45)" by (auto simp: signed_def)
    with d show ?thesis unfolding r by blast
  qed
  have "well_split ws sg ds rest"
    unfolding well_split_def using a b c e f by blast
  with 1 show ?thesis by blast
qed

lemma of_char_digit_char: "d < 10 \<Longrightarrow> of_char (digit_char d) = (48 + d :: nat)"
  by (drule digit_cases) (auto simp: digit_char_def)

lemma digits_value_String_nat: "digits_value (js (String_nat n)) = n"
proof (induction n rule: String_nat.induct)
  case (1 n)
  show ?case
  proof (cases "n < 10")
    case True
    then show ?thesis
      by (simp add: String_nat.simps[of n] js_def digits_value_def of_char_digit_char)
  next
    case False
    have "digits_value (js (String_nat (n div 10))) = n div 10"
      using 1[OF False] .
    then show ?thesis using False
      by (simp add: String_nat.simps[of n] js_def digits_value_def of_char_digit_char)
  qed
qed

text \<open>
  C8 (as amended). The defaults, 1 for \<open>page\<close> and 10 for \<open>limit\<close>, are taken when the field
  is absent or the empty string, and no other input is replaced by a default. Any other
  string gives \<open>parseInt\<close> of it in base 10: leading white space is skipped, one optional
  sign is read, then the longest run of decimal digits, and what follows is ignored. Every
  string splits in this way. The result is \<open>NaN\<close> when the run of digits is empty, and
  otherwise the signed integer value of the run: exact when its magnitude is at most
  \<open>2^53\<close>, the double taken for it beyond that, and negative zero for a negative zero.
\<close>

theorem pagination_defaults:
  "(q_page q = None \<or> q_page q = Some [] \<longrightarrow> page (paginationSchema q) = Num 1) \<and>
   (q_limit q = None \<or> q_limit q = Some [] \<longrightarrow> limit (paginationSchema q) = Num 10) \<and>
   (\<forall>v. q_page q = Some v \<and> v \<noteq> [] \<longrightarrow> page (paginationSchema q) = parseInt10 v) \<and>
   (\<forall>v. q_limit q = Some v \<and> v \<noteq> [] \<longrightarrow> limit (paginationSchema q) = parseInt10 v) \<and>
   (\<forall>ws sg ds rest. well_split ws sg ds rest \<longrightarrow>
      parseInt10 (ws @ sg @ ds @ rest) =
        (if ds = [] then NaN else number_of (sg = [45]) (digits_value ds))) \<and>
   (\<forall>v. \<exists>ws sg ds rest. v = ws @ sg @ ds @ rest \<and> well_split ws sg ds rest) \<and>
   (\<forall>neg n. 0 < n \<and> n \<le> 9007199254740992 \<longrightarrow>
      number_of neg n = Num (if neg then - int n else int n)) \<and>
   (\<forall>neg n. 9007199254740992 < n \<longrightarrow>
      number_of neg n = Rounded (if neg then - int n else int n)) \<and>
   number_of False 0 = Num 0 \<and> number_of True 0 = NegZero \<and>
   (\<forall>n. digits_value (js (String_nat n)) = n)"
proof (intro conjI allI impI)
  assume "q_page q = None \<or> q_page q = Some []"
  then show "page (paginationSchema q) = Num 1"
    by (auto simp: paginationSchema_def)
next
  assume "q_limit q = None \<or> q_limit q = Some []"
  then show "limit (paginationSchema q) = Num 10"
    by (auto simp: paginationSchema_def)
next
  fix v assume "q_page q = Some v \<and> v \<noteq> []"
  then show "page (paginationSchema q) = parseInt10 v"
    by (simp add: paginationSchema_def)
next
  fix v assume "q_limit q = Some v \<and> v \<noteq> []"
  then show "limit (paginationSchema q) = parseInt10 v"
    by (simp add: paginationSchema_def)
next
  fix ws sg ds rest assume "well_split ws sg ds rest"
  then show "parseInt10 (ws @ sg @ ds @ rest) =
        (if ds = [] then NaN else number_of (sg = [45]) (digits_value ds))"
    by (rule parseInt10_split)
next
  fix v show "\<exists>ws sg ds rest. v = ws @ sg @ ds @ rest \<and> well_split ws sg ds rest"
    by (rule split_exists)
next
  fix neg and n :: nat assume "0 < n \<and> n \<le> 9007199254740992"
  then show "number_of neg n = Num (if neg then - int n else int n)"
    by (simp add: number_of_def)
next
  fix neg and n :: nat assume "9007199254740992 < n"
  then show "number_of neg n = Rounded (if neg then - int n else int n)"
    by (simp add: number_of_def)
next
  show "number_of False 0 = Num 0" "number_of True 0 = NegZero"
    by (simp_all add: number_of_def)
next
  fix n show "digits_value (js (String_nat n)) = n"
    by (rule digits_value_String_nat)
qed

theorem pagination_defaults_witness:
  "paginationSchema \<lparr>q_page = None, q_limit = Some []\<rparr> = \<lparr>page = Num 1, limit = Num 10\<rparr> \<and>
   paginationSchema \<lparr>q_page = Some (js ''-5''), q_limit = Some [160, 53]\<rparr> =
     \<lparr>page = Num (- 5), limit = Num 5\<rparr> \<and>
   paginationSchema \<lparr>q_page = Some (js ''abc''), q_limit = Some (js ''0'')\<rparr> =
     \<lparr>page = NaN, limit = Num 0\<rparr> \<and>
   parseInt10 (js ''+12abc'') = Num 12 \<and> parseInt10 (js '' 7'') = Num 7 \<and>
   parseInt10 (js ''-abc'') = NaN \<and> parseInt10 (js ''+'') = NaN"
proof -
  let ?q0 = "\<lparr>q_page = None, q_limit = Some []\<rparr>"
  let ?q1 = "\<lparr>q_page = Some (js ''-5''), q_limit = Some [160, 53]\<rparr>"
  let ?q2 = "\<lparr>q_page = Some (js ''abc''), q_limit = Some (js ''0'')\<rparr>"
  note split = pagination_defaults[of ?q0, THEN conjunct2, THEN conjunct2, THEN conjunct2,
      THEN conjunct2, THEN conjunct1, rule_format]
  have p1: "parseInt10 (js ''-5'') = Num (- 5)"
    using split[of "[]" "[45]" "[53]" "[]"]
    by (simp add: well_split_def is_digit_unit_def js_examples number_of_def digits_value_def)
  have p2: "parseInt10 [160, 53] = Num 5"
    using split[of "[160]" "[]" "[53]" "[]"]
    by (simp add: well_split_def is_digit_unit_def is_white_space_def number_of_def digits_value_def)
  have p3: "parseInt10 (js ''abc'') = NaN"
    using split[of "[]" "[]" "[]" "[97, 98, 99]"]
    by (simp add: well_split_def is_digit_unit_def is_white_space_def js_examples)
  have p4: "parseInt10 (js ''0'') = Num 0"
    using split[of "[]" "[]" "[48]" "[]"]
    by (simp add: well_split_def is_digit_unit_def js_examples number_of_def digits_value_def)
  have p5: "parseInt10 (js ''+12abc'') = Num 12"
    using split[of "[]" "[43]" "[49, 50]" "[97, 98, 99]"]
    by (simp add: well_split_def is_digit_unit_def js_examples number_of_def digits_value_def)
  have p6: "parseInt10 (js '' 7'') = Num 7"
    using split[of "[32]" "[]" "[55]" "[]"]
    by (simp add: well_split_def is_digit_unit_def is_white_space_def js_examples number_of_def
          digits_value_def)
  have p7: "parseInt10 (js ''-abc'') = NaN"
    using split[of "[]" "[45]" "[]" "[97, 98, 99]"]
    by (simp add: well_split_def is_digit_unit_def js_examples)
  have p8: "parseInt10 (js ''+'') = NaN"
    using split[of "[]" "[43]" "[]" "[]"]
    by (simp add: well_split_def js_examples)
  have ne: "js ''-5'' \<noteq> []" "js ''abc'' \<noteq> []" "js ''0'' \<noteq> []"
    by (simp_all add: js_examples)
  have 0: "page (paginationSchema ?q0) = Num 1 \<and> limit (paginationSchema ?q0) = Num 10"
    using pagination_defaults[of ?q0] by simp
  have 1: "page (paginationSchema ?q1) = Num (- 5) \<and> limit (paginationSchema ?q1) = Num 5"
    using pagination_defaults[of ?q1] p1 p2 ne by simp
  have 2: "page (paginationSchema ?q2) = NaN \<and> limit (paginationSchema ?q2) = Num 0"
    using pagination_defaults[of ?q2] p3 p4 ne by simp
  have eqI: "page r = a \<and> limit r = b \<Longrightarrow> r = \<lparr>page = a, limit = b\<rparr>" for r a b
    by (cases r) simp
  from 0 1 2 p5 p6 p7 p8 show ?thesis
    by (intro conjI eqI) blast+
qed

text \<open>
  C8 as stated fails: the non-numeric \<open>page=abc\<close> gives \<open>NaN\<close> and \<open>limit=0\<close>, which is not a
  positive integer, gives 0; neither gives the default.
\<close>

theorem pagination_non_numeric:
  "page (paginationSchema \<lparr>q_page = Some (js ''abc''), q_limit = Some (js ''0'')\<rparr>) = NaN \<and>
   limit (paginationSchema \<lparr>q_page = Some (js ''abc''), q_limit = Some (js ''0'')\<rparr>) = Num 0"
  by (simp add: paginationSchema_def parseInt10_def js_examples is_white_space_def
        is_digit_unit_def number_of_def digits_value_def)

end
